(* ===== verification/Go_Prelude.thy ===== *)
theory Go_Prelude
  imports Main "HOL-Library.Sublist" "HOL-Library.Word" "HOL-Library.Code_Target_Numeral"
begin

text \<open>
  Shared vocabulary of the development: the fact collections, the names of the machine types,
  and the part of Go's standard library \<^verbatim>\<open>strings\<close> that the program uses.

  A Go string is a byte sequence, so it is a HOL \<open>string\<close> (a list of 8-bit \<open>char\<close>s).
  White space is Unicode's: the byte sequences of every code point with the White_Space property
  are listed, because \<^verbatim>\<open>strings.TrimSpace\<close> and \<^verbatim>\<open>strings.Fields\<close> test
  \<^verbatim>\<open>unicode.IsSpace\<close>.  Lower-casing is exact on ASCII strings (Go's fast path); what
  \<^verbatim>\<open>unicode.ToLower\<close> does to a string with a byte above 127 is the parameter \<open>ul\<close> of every
  definition that lower-cases, so no theorem here depends on Unicode's case tables.
\<close>

named_theorems go_str \<open>unfolding of the string primitives\<close>
named_theorems wf_intros \<open>preservation of the components' invariants\<close>
named_theorems abs_simps \<open>abstraction functions commute with the operations\<close>

type_synonym u8 = "8 word"
type_synonym u16 = "16 word"
type_synonym u32 = "32 word"
type_synonym u64 = "64 word"

section \<open>Bytes\<close>

definition byte_of :: "char \<Rightarrow> nat" where
  "byte_of c = of_char c"

definition is_upper :: "char \<Rightarrow> bool" where
  "is_upper c \<longleftrightarrow> 65 \<le> byte_of c \<and> byte_of c \<le> 90"

definition is_lower :: "char \<Rightarrow> bool" where
  "is_lower c \<longleftrightarrow> 97 \<le> byte_of c \<and> byte_of c \<le> 122"

definition is_ascii :: "string \<Rightarrow> bool" where
  "is_ascii s \<longleftrightarrow> list_all (\<lambda>c. byte_of c < 128) s"

text \<open>\<^verbatim>\<open>c | 0x20\<close> and \<^verbatim>\<open>c &^ 0x20\<close> on a byte.\<close>

fun set_bit5 :: "char \<Rightarrow> char" where
  "set_bit5 (Char b0 b1 b2 b3 b4 b5 b6 b7) = Char b0 b1 b2 b3 b4 True b6 b7"

fun clear_bit5 :: "char \<Rightarrow> char" where
  "clear_bit5 (Char b0 b1 b2 b3 b4 b5 b6 b7) = Char b0 b1 b2 b3 b4 False b6 b7"

definition lower_byte :: "char \<Rightarrow> char" where
  "lower_byte c = (if is_upper c then set_bit5 c else c)"

lemma lower_byte_simps:
  "is_upper c \<Longrightarrow> lower_byte c = set_bit5 c"
  "\<not> is_upper c \<Longrightarrow> lower_byte c = c"
  by (simp_all add: lower_byte_def)

lemma byte_of_Char:
  "byte_of (Char b0 b1 b2 b3 b4 b5 b6 b7) =
     of_bool b0 + 2 * (of_bool b1 + 2 * (of_bool b2 + 2 * (of_bool b3 + 2 * (of_bool b4 +
       2 * (of_bool b5 + 2 * (of_bool b6 + 2 * of_bool b7))))))"
  by (simp add: byte_of_def)

lemma is_upper_Char:
  "is_upper (Char b0 b1 b2 b3 b4 b5 b6 b7) \<longleftrightarrow>
     \<not> b7 \<and> b6 \<and> \<not> b5 \<and> (b0 \<or> b1 \<or> b2 \<or> b3 \<or> b4) \<and>
     (\<not> b4 \<or> \<not> b3 \<or> \<not> b2 \<and> (\<not> b1 \<or> \<not> b0))"
  unfolding is_upper_def byte_of_Char
  by (cases b0; cases b1; cases b2; cases b3; cases b4; cases b5; cases b6; cases b7) simp_all

lemma is_lower_Char:
  "is_lower (Char b0 b1 b2 b3 b4 b5 b6 b7) \<longleftrightarrow>
     \<not> b7 \<and> b6 \<and> b5 \<and> (b0 \<or> b1 \<or> b2 \<or> b3 \<or> b4) \<and>
     (\<not> b4 \<or> \<not> b3 \<or> \<not> b2 \<and> (\<not> b1 \<or> \<not> b0))"
  unfolding is_lower_def byte_of_Char
  by (cases b0; cases b1; cases b2; cases b3; cases b4; cases b5; cases b6; cases b7) simp_all

lemma ascii_Char: "byte_of (Char b0 b1 b2 b3 b4 b5 b6 b7) < 128 \<longleftrightarrow> \<not> b7"
  unfolding byte_of_Char
  by (cases b0; cases b1; cases b2; cases b3; cases b4; cases b5; cases b6; cases b7) simp_all

lemma lower_byte_not_upper [simp]: "\<not> is_upper (lower_byte c)"
  by (cases c) (auto simp: lower_byte_def is_upper_Char)

lemma lower_byte_idem [simp]: "lower_byte (lower_byte c) = lower_byte c"
  by (simp add: lower_byte_def [of "lower_byte c"])

lemma lower_byte_ascii: "byte_of (lower_byte c) < 128 \<longleftrightarrow> byte_of c < 128"
  by (cases c) (auto simp: lower_byte_def is_upper_Char ascii_Char)

lemma lower_byte_eq_iff:
  assumes "\<not> is_upper x" "\<not> is_lower x"
  shows "lower_byte c = x \<longleftrightarrow> c = x"
  using assms by (cases c; cases x) (auto simp: lower_byte_def is_upper_Char is_lower_Char)

lemma letter_set_bit5: "is_upper c \<or> is_lower c \<Longrightarrow> is_lower (set_bit5 c)"
  by (cases c) (auto simp: is_upper_Char is_lower_Char)

lemma letter_clear_bit5: "is_upper c \<or> is_lower c \<Longrightarrow> is_upper (clear_bit5 c)"
  by (cases c) (auto simp: is_upper_Char is_lower_Char)

lemma lower_letter_bit5:
  "is_upper c \<or> is_lower c \<Longrightarrow> lower_byte (set_bit5 c) = lower_byte c"
  "is_upper c \<or> is_lower c \<Longrightarrow> lower_byte (clear_bit5 c) = lower_byte c"
  by (cases c; auto simp: lower_byte_def is_upper_Char is_lower_Char)+

section \<open>The package strings\<close>

definition to_lower :: "(string \<Rightarrow> string) \<Rightarrow> string \<Rightarrow> string" where
  "to_lower ul s = (if is_ascii s then map lower_byte s else ul s)"

text \<open>\<^verbatim>\<open>strings.EqualFold\<close>; Unicode folding, for a text that is not ASCII, is the argument \<open>uf\<close>.\<close>

definition equal_fold :: "(string \<Rightarrow> string \<Rightarrow> bool) \<Rightarrow> string \<Rightarrow> string \<Rightarrow> bool" where
  "equal_fold uf s t =
     (if is_ascii s \<and> is_ascii t then map lower_byte s = map lower_byte t else uf s t)"

definition has_prefix :: "string \<Rightarrow> string \<Rightarrow> bool" where
  "has_prefix s p = prefix p s"

definition has_suffix :: "string \<Rightarrow> string \<Rightarrow> bool" where
  "has_suffix s p = suffix p s"

definition trim_prefix :: "string \<Rightarrow> string \<Rightarrow> string" where
  "trim_prefix s p = (if prefix p s then drop (length p) s else s)"

definition trim_suffix :: "string \<Rightarrow> string \<Rightarrow> string" where
  "trim_suffix s p = (if suffix p s then take (length s - length p) s else s)"

definition contains_any :: "string \<Rightarrow> string \<Rightarrow> bool" where
  "contains_any s cs = list_ex (\<lambda>c. c \<in> set cs) s"

fun contains_str :: "string \<Rightarrow> string \<Rightarrow> bool" where
  "contains_str [] p = (p = [])"
| "contains_str (c # s) p = (prefix p (c # s) \<or> contains_str s p)"

text \<open>\<^verbatim>\<open>strings.IndexByte\<close> and \<^verbatim>\<open>strings.LastIndexByte\<close>; \<open>None\<close> is Go's -1.\<close>

fun index_byte :: "string \<Rightarrow> char \<Rightarrow> nat option" where
  "index_byte [] c = None"
| "index_byte (x # s) c = (if x = c then Some 0 else map_option Suc (index_byte s c))"

fun last_index_byte :: "string \<Rightarrow> char \<Rightarrow> nat option" where
  "last_index_byte [] c = None"
| "last_index_byte (x # s) c =
     (case last_index_byte s c of
        Some i \<Rightarrow> Some (Suc i)
      | None \<Rightarrow> (if x = c then Some 0 else None))"

text \<open>
  The UTF-8 encodings of the code points for which \<^verbatim>\<open>unicode.IsSpace\<close> holds: the six ASCII
  ones, U+0085, U+00A0, U+1680, U+2000 to U+200A, U+2028, U+2029, U+202F, U+205F and U+3000.
  None begins with a continuation byte, so matching them byte by byte finds exactly the spaces that
  decoding rune by rune finds.
\<close>

definition space_seqs :: "string list" where
  "space_seqs =
    [[CHR 0x09], [CHR 0x0A], [CHR 0x0B], [CHR 0x0C], [CHR 0x0D], [CHR 0x20],
     [CHR 0xC2, CHR 0x85], [CHR 0xC2, CHR 0xA0], [CHR 0xE1, CHR 0x9A, CHR 0x80],
     [CHR 0xE2, CHR 0x80, CHR 0x80], [CHR 0xE2, CHR 0x80, CHR 0x81],
     [CHR 0xE2, CHR 0x80, CHR 0x82], [CHR 0xE2, CHR 0x80, CHR 0x83],
     [CHR 0xE2, CHR 0x80, CHR 0x84], [CHR 0xE2, CHR 0x80, CHR 0x85],
     [CHR 0xE2, CHR 0x80, CHR 0x86], [CHR 0xE2, CHR 0x80, CHR 0x87],
     [CHR 0xE2, CHR 0x80, CHR 0x88], [CHR 0xE2, CHR 0x80, CHR 0x89],
     [CHR 0xE2, CHR 0x80, CHR 0x8A], [CHR 0xE2, CHR 0x80, CHR 0xA8],
     [CHR 0xE2, CHR 0x80, CHR 0xA9], [CHR 0xE2, CHR 0x80, CHR 0xAF],
     [CHR 0xE2, CHR 0x81, CHR 0x9F], [CHR 0xE3, CHR 0x80, CHR 0x80]]"

definition next_seq :: "string list \<Rightarrow> string \<Rightarrow> string option" where
  "next_seq ps s = find (\<lambda>p. p \<noteq> [] \<and> prefix p s) ps"

lemma next_seq_Some:
  assumes "next_seq ps s = Some p"
  shows "p \<noteq> []" and "prefix p s" and "p \<in> set ps"
  using assms by (auto simp: next_seq_def find_Some_iff)

lemma next_seq_shorter [termination_simp]:
  "next_seq ps s = Some p \<Longrightarrow> length s - length p < length s"
  using next_seq_Some [of ps s p] by (cases p; cases s) auto

function strip_left :: "string list \<Rightarrow> string \<Rightarrow> string" where
  "strip_left ps s =
     (case next_seq ps s of None \<Rightarrow> s | Some p \<Rightarrow> strip_left ps (drop (length p) s))"
  by pat_completeness auto
termination
  by (relation "measure (\<lambda>(ps, s). length s)") (auto simp: next_seq_shorter)

declare strip_left.simps [simp del]

definition trim_space :: "string \<Rightarrow> string" where
  "trim_space s =
     rev (strip_left (map rev space_seqs) (rev (strip_left space_seqs s)))"

text \<open>\<^verbatim>\<open>strings.Fields\<close>: the maximal runs of non-space, \<open>acc\<close> being the run read so far.\<close>

function fields_from :: "string \<Rightarrow> string \<Rightarrow> string list" where
  "fields_from acc s =
     (case next_seq space_seqs s of
        Some p \<Rightarrow> (if acc = [] then [] else [acc]) @ fields_from [] (drop (length p) s)
      | None \<Rightarrow> (case s of
            [] \<Rightarrow> (if acc = [] then [] else [acc])
          | c # s' \<Rightarrow> fields_from (acc @ [c]) s'))"
  by pat_completeness auto
termination
  by (relation "measure (\<lambda>(acc, s). length s)") (auto simp: next_seq_shorter)

declare fields_from.simps [simp del]

definition go_fields :: "string \<Rightarrow> string list" where
  "go_fields s = fields_from [] s"

section \<open>Facts about the string primitives\<close>

lemma index_byte_None [simp]: "index_byte s c = None \<longleftrightarrow> c \<notin> set s"
  by (induction s) auto

lemma index_byte_absent [simp]: "c \<notin> set s \<Longrightarrow> index_byte s c = None"
  by simp

lemma last_index_byte_absent [simp]: "c \<notin> set s \<Longrightarrow> last_index_byte s c = None"
  by (induction s) auto

lemma index_byte_SomeD:
  "index_byte s c = Some i \<Longrightarrow> i < length s \<and> s = take i s @ c # drop (Suc i) s \<and> c \<notin> set (take i s)"
proof (induction s arbitrary: i)
  case (Cons x s)
  then show ?case by (cases i) (auto split: if_splits)
qed simp

lemma index_byte_nth: "index_byte s c = Some i \<Longrightarrow> s ! i = c"
  by (induction s arbitrary: i) (auto split: if_splits)

lemma index_byte_append:
  "c \<notin> set u \<Longrightarrow> index_byte (u @ c # v) c = Some (length u)"
  by (induction u) auto

lemma last_index_byte_None [simp]: "last_index_byte s c = None \<longleftrightarrow> c \<notin> set s"
  by (induction s) (auto split: option.splits)

lemma last_index_byte_append:
  "c \<notin> set v \<Longrightarrow> last_index_byte (u @ c # v) c = Some (length u)"
  by (induction u) (auto split: option.splits)

lemma last_index_byte_SomeD:
  "last_index_byte s c = Some i \<Longrightarrow>
     i < length s \<and> s = take i s @ c # drop (Suc i) s \<and> c \<notin> set (drop (Suc i) s)"
proof (induction s arbitrary: i)
  case (Cons x s)
  then show ?case by (cases i) (auto split: if_splits option.splits)
qed simp

lemma trim_prefix_Nil [simp]: "trim_prefix [] p = []"
  by (simp add: trim_prefix_def)

lemma trim_prefix_append [simp]: "trim_prefix (p @ s) p = s"
  by (simp add: trim_prefix_def)

lemma trim_suffix_append [simp]: "trim_suffix (s @ p) p = s"
  by (auto simp: trim_suffix_def suffix_def)

lemma trim_suffix_id: "\<not> suffix p s \<Longrightarrow> trim_suffix s p = s"
  by (simp add: trim_suffix_def)

lemma trim_prefix_id: "\<not> prefix p s \<Longrightarrow> trim_prefix s p = s"
  by (simp add: trim_prefix_def)

lemma set_trim_prefix: "set (trim_prefix s p) \<subseteq> set s"
  by (auto simp: trim_prefix_def dest: in_set_dropD)

lemma set_trim_suffix: "set (trim_suffix s p) \<subseteq> set s"
  by (auto simp: trim_suffix_def dest: in_set_takeD)

lemma length_trim_prefix_le: "length (trim_prefix s p) \<le> length s"
  by (simp add: trim_prefix_def)

lemma length_trim_suffix_le: "length (trim_suffix s p) \<le> length s"
  by (simp add: trim_suffix_def)

text \<open>Stripping spaces stops at a byte that occurs in none of the space sequences.\<close>

lemma next_seq_append:
  assumes "\<forall>p \<in> set ps. x \<notin> set p"
  shows "next_seq ps (u @ x # v) = next_seq ps u"
  unfolding next_seq_def
proof (rule find_cong [OF refl])
  fix p assume "p \<in> set ps"
  with assms have "x \<notin> set p" by blast
  then have "prefix p (u @ x # v) \<longleftrightarrow> prefix p u"
    by (auto simp: prefix_append prefix_Cons)
  then show "(p \<noteq> [] \<and> prefix p (u @ x # v)) = (p \<noteq> [] \<and> prefix p u)" by simp
qed

lemma strip_left_append:
  assumes "\<forall>p \<in> set ps. x \<notin> set p"
  shows "strip_left ps (u @ x # v) = strip_left ps u @ x # v"
  using assms
proof (induction ps u rule: strip_left.induct)
  case (1 ps u)
  note nx = next_seq_append [OF "1.prems", of u v]
  show ?case
  proof (cases "next_seq ps u")
    case None
    with nx show ?thesis
      by (simp add: strip_left.simps [of ps "u @ x # v"] strip_left.simps [of ps u])
  next
    case (Some p)
    then have "length p \<le> length u"
      using next_seq_Some(2) [OF Some] by (auto simp: prefix_def)
    with 1 Some nx show ?thesis
      by (simp add: strip_left.simps [of ps "u @ x # v"] strip_left.simps [of ps u])
  qed
qed

lemma next_seq_strip_left: "next_seq ps (strip_left ps s) = None"
  by (induction ps s rule: strip_left.induct)
     (subst strip_left.simps, auto split: option.splits)

lemma strip_left_idem [simp]: "strip_left ps (strip_left ps s) = strip_left ps s"
  by (simp add: strip_left.simps [of ps "strip_left ps s"] next_seq_strip_left)

lemma set_strip_left: "set (strip_left ps s) \<subseteq> set s"
proof (induction ps s rule: strip_left.induct)
  case (1 ps s)
  show ?case
  proof (cases "next_seq ps s")
    case None
    then show ?thesis by (simp add: strip_left.simps [of ps s])
  next
    case (Some p)
    with 1 show ?thesis
      by (auto simp: strip_left.simps [of ps s] dest: in_set_dropD)
  qed
qed

lemma set_trim_space: "set (trim_space s) \<subseteq> set s"
  using set_strip_left [of "map rev space_seqs" "rev (strip_left space_seqs s)"]
    set_strip_left [of space_seqs s]
  by (auto simp: trim_space_def)

text \<open>A byte that is in no space sequence, such as the comment mark.\<close>

definition no_space_byte :: "char \<Rightarrow> bool" where
  "no_space_byte x \<longleftrightarrow> (\<forall>p \<in> set space_seqs. x \<notin> set p)"

lemma trim_space_stop:
  assumes "no_space_byte x"
  shows "trim_space (u @ x # v) =
    strip_left space_seqs u @ x # rev (strip_left (map rev space_seqs) (rev v))"
proof -
  have l: "\<forall>p \<in> set space_seqs. x \<notin> set p"
    and r: "\<forall>p \<in> set (map rev space_seqs). x \<notin> set p"
    using assms by (auto simp: no_space_byte_def)
  show ?thesis
    by (simp add: trim_space_def strip_left_append [OF l] strip_left_append [OF r])
qed

lemma trim_space_strip_left: "trim_space (strip_left space_seqs u) = trim_space u"
  by (simp add: trim_space_def)

section \<open>Plain names\<close>

text \<open>
  The bytes of an ordinary host name: printable ASCII other than the space, \<^verbatim>\<open>|\<close> and
  \<^verbatim>\<open>^\<close>.  Trimming does nothing to a string of plain bytes.
\<close>

definition plain_byte :: "char \<Rightarrow> bool" where
  "plain_byte c \<longleftrightarrow> 33 \<le> byte_of c \<and> byte_of c < 127 \<and> c \<noteq> CHR ''|'' \<and> c \<noteq> CHR ''^''"

definition plain :: "string \<Rightarrow> bool" where
  "plain s \<longleftrightarrow> list_all plain_byte s"

lemma plain_simps [simp]:
  "plain []" "plain (c # s) \<longleftrightarrow> plain_byte c \<and> plain s" "plain (s @ t) \<longleftrightarrow> plain s \<and> plain t"
  "plain (rev s) \<longleftrightarrow> plain s"
  by (simp_all add: plain_def)

lemma plain_byte_ascii: "plain_byte c \<Longrightarrow> byte_of c < 128"
  unfolding plain_byte_def by linarith

lemma plain_ascii: "plain s \<Longrightarrow> is_ascii s"
  using plain_byte_ascii by (auto simp: plain_def is_ascii_def list_all_iff)

lemma plain_lower_byte: "plain_byte c \<Longrightarrow> plain_byte (lower_byte c)"
proof -
  assume p: "plain_byte c"
  have "33 \<le> byte_of (lower_byte c) \<and> byte_of (lower_byte c) < 127" if "is_upper c"
    using that by (cases c) (auto simp: lower_byte_def is_upper_Char byte_of_Char)
  moreover have "lower_byte c \<noteq> CHR ''|'' \<and> lower_byte c \<noteq> CHR ''^''"
    using p by (cases c) (auto simp: lower_byte_def is_upper_Char plain_byte_def)
  ultimately show ?thesis
    using p by (cases "is_upper c") (auto simp: plain_byte_def lower_byte_simps)
qed

lemma plain_map_lower: "plain s \<Longrightarrow> plain (map lower_byte s)"
  by (induction s) (simp_all add: plain_lower_byte)

lemma space_seqs_not_plain:
  "p \<in> set space_seqs \<Longrightarrow> p \<noteq> [] \<and> \<not> plain_byte (hd p) \<and> \<not> plain_byte (last p)"
  by (auto simp: space_seqs_def plain_byte_def byte_of_Char)

lemma plain_strip:
  assumes "plain s"
  shows "strip_left space_seqs s = s" and "strip_left (map rev space_seqs) s = s"
proof -
  have no: "next_seq ps s = None"
    if "\<And>p. p \<in> set ps \<Longrightarrow> p \<noteq> [] \<and> \<not> plain_byte (hd p)" for ps
    using assms that
    by (fastforce simp: next_seq_def find_None_iff neq_Nil_conv prefix_def)
  have "next_seq space_seqs s = None" by (rule no) (simp add: space_seqs_not_plain)
  then show "strip_left space_seqs s = s" by (simp add: strip_left.simps)
  have "next_seq (map rev space_seqs) s = None"
    by (rule no) (auto simp: hd_rev dest: space_seqs_not_plain)
  then show "strip_left (map rev space_seqs) s = s" by (simp add: strip_left.simps)
qed

lemma trim_space_plain: "plain s \<Longrightarrow> trim_space s = s"
  by (simp add: trim_space_def plain_strip)

lemma to_lower_plain: "plain s \<Longrightarrow> to_lower ul s = map lower_byte s"
  by (simp add: to_lower_def plain_ascii)

lemma plain_no_mark:
  assumes "plain s"
  shows "\<not> prefix [CHR ''|'', CHR ''|''] s" "\<not> prefix [CHR ''^''] s" "\<not> suffix [CHR ''^''] s"
  using assms by (auto simp: prefix_def suffix_def plain_byte_def)

section \<open>Lists\<close>

lemma map_filter_cong':
  "(\<And>x. x \<in> set xs \<Longrightarrow> f x = g x) \<Longrightarrow> List.map_filter f xs = List.map_filter g xs"
  by (induction xs) (auto simp: List.map_filter_simps split: option.split)

lemma in_set_map_filter: "y \<in> set (List.map_filter f xs) \<longleftrightarrow> (\<exists>x \<in> set xs. f x = Some y)"
  by (induction xs) (auto split: option.split)

lemma length_map_filter_le: "length (List.map_filter f xs) \<le> length xs"
  by (simp add: List.map_filter_def)

section \<open>Words and integers\<close>

text \<open>Conversions between \<^verbatim>\<open>int\<close>, \<^verbatim>\<open>uint64\<close> and \<^verbatim>\<open>uint32\<close> that lose nothing.\<close>

lemma unat_of_nat_u64: "n < 2 ^ 64 \<Longrightarrow> unat (of_nat n :: u64) = n"
  by (simp add: unsigned_of_nat take_bit_nat_eq_self)

lemma unat_of_int_u64: "0 \<le> k \<Longrightarrow> k < 2 ^ 64 \<Longrightarrow> unat (word_of_int k :: u64) = nat k"
  by (simp add: unsigned_of_int take_bit_int_eq_self)

lemma unat_of_int_u32: "0 \<le> k \<Longrightarrow> k < 2 ^ 32 \<Longrightarrow> unat (word_of_int k :: u32) = nat k"
  by (simp add: unsigned_of_int take_bit_int_eq_self)

lemma sint_u64: "unat (w :: u64) < 2 ^ 63 \<Longrightarrow> sint w = int (unat w)"
proof -
  assume "unat w < 2 ^ 63"
  then have "uint w < 2 ^ 63" by (simp add: unat_eq_nat_uint nat_less_iff del: nat_uint_eq)
  then have "signed_take_bit 63 (uint w) = uint w" 
    using uint_ge_0 [of w] by (intro signed_take_bit_int_eq_self) linarith+
  then show ?thesis by (simp add: sint_uint)
qed

end
