(* ===== verification/Loader.thy ===== *)
theory Loader
  imports Go_Prelude
begin

text \<open>
  \<^verbatim>\<open>internal/filter/loader.go\<close>: normalisation and validation of domain strings, the parser for hosts
  files and domain lists, and its two callers, which read a local file and an HTTP body.

  An \<^verbatim>\<open>io.Reader\<close> is the record \<open>reader\<close>: the bytes it delivers, and whether it ends with an error
  instead of EOF.  The file system and the HTTP client are arguments of \<open>LoadFile\<close> and \<open>FetchURL\<close>.
\<close>

section \<open>Domain strings\<close>

definition ignoredHosts :: "string set" where
  "ignoredHosts =
     {''localhost'', ''localhost.localdomain'', ''local'', ''broadcasthost'', ''ip6-localhost'',
      ''ip6-loopback'', ''ip6-localnet'', ''ip6-mcastprefix'', ''ip6-allnodes'',
      ''ip6-allrouters'', ''ip6-allhosts'', ''0.0.0.0'', ''255.255.255.255''}"

definition normalizeDomain :: "(string \<Rightarrow> string) \<Rightarrow> string \<Rightarrow> string" where
  "normalizeDomain ul s =
     (let d = to_lower ul (trim_space s);
          d = trim_prefix d ''||'';
          d = trim_prefix d ''^'';
          d = trim_suffix d ''^'';
          d = trim_suffix d ''.''
      in d)"

text \<open>The bytes of \<^verbatim>\<open>" /\\:;*?\"<>|&$#@!%^()[]{}`~"\<close>, by their codes.\<close>

definition invalid_chars :: string where
  "invalid_chars =
    [CHR 0x20, CHR 0x2F, CHR 0x5C, CHR 0x3A, CHR 0x3B, CHR 0x2A, CHR 0x3F,
     CHR 0x22, CHR 0x3C, CHR 0x3E, CHR 0x7C, CHR 0x26, CHR 0x24, CHR 0x23,
     CHR 0x40, CHR 0x21, CHR 0x25, CHR 0x5E, CHR 0x28, CHR 0x29, CHR 0x5B,
     CHR 0x5D, CHR 0x7B, CHR 0x7D, CHR 0x60, CHR 0x7E]"

definition isValidDomain :: "string \<Rightarrow> bool" where
  "isValidDomain d =
     (if d = [] \<or> length d > 253 then False
      else if d \<in> ignoredHosts then False
      else
        (let clean = trim_prefix (trim_prefix d ''*.'') ''.'' in
         if clean = [] then False
         else if contains_any clean invalid_chars then False
         else True))"

section \<open>The line scanner\<close>

text \<open>
  \<^verbatim>\<open>bufio.Scanner\<close> with \<^verbatim>\<open>ScanLines\<close> and a buffer of at most \<open>mx\<close> bytes: a line whose bytes
  and terminator do not fit the buffer stops the scan with \<^verbatim>\<open>bufio.ErrTooLong\<close> (second
  component); a last line without terminator is delivered unless it fills the buffer.
\<close>

definition newline :: char where "newline = CHR 0x0A"
definition carriage_return :: char where "carriage_return = CHR 0x0D"

definition drop_cr :: "string \<Rightarrow> string" where
  "drop_cr s = trim_suffix s [carriage_return]"

lemma index_byte_shorter [termination_simp]:
  "index_byte s c = Some i \<Longrightarrow> length s - Suc i < length s"
  using index_byte_SomeD [of s c i] by (cases s) auto

function scan_lines :: "nat \<Rightarrow> string \<Rightarrow> string list \<times> bool" where
  "scan_lines mx s =
     (if s = [] then ([], False)
      else
        (case index_byte s newline of
           Some i \<Rightarrow>
             (if i < mx then
                (let (ls, long) = scan_lines mx (drop (Suc i) s)
                 in (drop_cr (take i s) # ls, long))
              else ([], True))
         | None \<Rightarrow> (if length s < mx then ([drop_cr s], False) else ([], True))))"
  by pat_completeness auto
termination
  by (relation "measure (\<lambda>(mx, s). length s)") (auto simp: index_byte_shorter)

declare scan_lines.simps [simp del]

section \<open>Parsing\<close>

datatype scan_err = ErrTooLong | ErrRead

datatype load_err =
    ErrOpen
  | ErrReadingHosts scan_err
  | ErrInvalidURL
  | ErrFetch
  | ErrStatus int

record reader =
  rd_data :: string
  rd_fail :: bool

type_synonym parse_state = "string set \<times> string list"

text \<open>The body shared by the three loops over tokens: normalise, validate, append if not seen.\<close>

fun add_token :: "(string \<Rightarrow> string) \<Rightarrow> parse_state \<Rightarrow> string \<Rightarrow> parse_state" where
  "add_token ul (seen, domains) tok =
     (let clean = normalizeDomain ul tok in
      if isValidDomain clean then
        if clean \<notin> seen then (insert clean seen, domains @ [clean]) else (seen, domains)
      else (seen, domains))"

definition hosts_ips :: "string set" where
  "hosts_ips = {''0.0.0.0'', ''127.0.0.1'', ''::1'', ''::''}"

definition hash :: char where "hash = CHR ''#''"

definition parse_fields :: "(string \<Rightarrow> string) \<Rightarrow> parse_state \<Rightarrow> string \<Rightarrow> parse_state" where
  "parse_fields ul st line =
     (case go_fields line of
        [] \<Rightarrow> st
      | first # rest \<Rightarrow>
          if first \<in> hosts_ips then foldl (add_token ul) st rest
          else if rest = [] then add_token ul st first
          else foldl (add_token ul) st (first # rest))"

definition parse_line :: "(string \<Rightarrow> string) \<Rightarrow> parse_state \<Rightarrow> string \<Rightarrow> parse_state" where
  "parse_line ul st raw =
     (let line = trim_space raw in
      if line = [] then st
      else
        (case index_byte line hash of
           Some idx \<Rightarrow>
             (let line = trim_space (take idx line) in
              if line = [] then st else parse_fields ul st line)
         | None \<Rightarrow> parse_fields ul st line))"

definition max_token :: nat where
  "max_token = 1024 * 1024"

definition ParseHosts ::
  "(string \<Rightarrow> string) \<Rightarrow> reader \<Rightarrow> string list \<times> load_err option" where
  "ParseHosts ul r =
     (let (ls, long) = scan_lines max_token (rd_data r);
          (seen, domains) = foldl (parse_line ul) ({}, []) ls
      in (domains,
          if long then Some (ErrReadingHosts ErrTooLong)
          else if rd_fail r then Some (ErrReadingHosts ErrRead)
          else None))"

text \<open>\<^verbatim>\<open>os.Open\<close> is \<open>fs\<close>; the HTTP exchange is \<open>http\<close>.\<close>

definition LoadFile ::
  "(string \<Rightarrow> string) \<Rightarrow> (string \<Rightarrow> reader option) \<Rightarrow> string \<Rightarrow> string list \<times> load_err option" where
  "LoadFile ul fs path =
     (case fs path of
        None \<Rightarrow> ([], Some ErrOpen)
      | Some f \<Rightarrow> ParseHosts ul f)"

datatype http_result =
    HttpBadRequest
  | HttpDoError
  | HttpResponse int reader

definition FetchURL ::
  "(string \<Rightarrow> string) \<Rightarrow> (string \<Rightarrow> http_result) \<Rightarrow> string \<Rightarrow> string list \<times> load_err option" where
  "FetchURL ul http rawURL =
     (case http rawURL of
        HttpBadRequest \<Rightarrow> ([], Some ErrInvalidURL)
      | HttpDoError \<Rightarrow> ([], Some ErrFetch)
      | HttpResponse status body \<Rightarrow>
          if status \<noteq> 200 then ([], Some (ErrStatus status)) else ParseHosts ul body)"

section \<open>The reference parser\<close>

text \<open>What a line contributes, without the scanner's state: the part before the first comment mark,
  its fields, minus a leading sinkhole address.\<close>

definition line_tokens :: "string \<Rightarrow> string list" where
  "line_tokens raw =
     (case go_fields (trim_space (takeWhile (\<lambda>c. c \<noteq> hash) raw)) of
        [] \<Rightarrow> []
      | first # rest \<Rightarrow> if first \<in> hosts_ips then rest else first # rest)"

text \<open>First occurrences, in order.\<close>

definition dedup :: "'a list \<Rightarrow> 'a list" where
  "dedup xs = rev (remdups (rev xs))"

definition hosts_spec :: "(string \<Rightarrow> string) \<Rightarrow> string list \<Rightarrow> string list" where
  "hosts_spec ul ls =
     dedup (filter isValidDomain (map (normalizeDomain ul) (concat (map line_tokens ls))))"

lemma dedup_snoc: "dedup (xs @ [x]) = (if x \<in> set xs then dedup xs else dedup xs @ [x])"
  by (simp add: dedup_def)

lemma set_dedup [simp]: "set (dedup xs) = set xs"
  by (simp add: dedup_def)

lemma distinct_dedup [simp]: "distinct (dedup xs)"
  by (simp add: dedup_def)

text \<open>The scanner's state after a list of tokens.\<close>

definition kept :: "(string \<Rightarrow> string) \<Rightarrow> string list \<Rightarrow> string list" where
  "kept ul toks = filter isValidDomain (map (normalizeDomain ul) toks)"

definition state_after :: "(string \<Rightarrow> string) \<Rightarrow> string list \<Rightarrow> parse_state" where
  "state_after ul toks = (set (kept ul toks), dedup (kept ul toks))"

lemma add_token_state_after:
  "add_token ul (state_after ul toks) t = state_after ul (toks @ [t])"
  by (auto simp: state_after_def kept_def dedup_snoc Let_def)

lemma foldl_add_token:
  "foldl (add_token ul) (state_after ul toks) ts = state_after ul (toks @ ts)"
  by (induction ts arbitrary: toks) (simp_all add: add_token_state_after)

lemma no_space_hash: "no_space_byte hash"
  by (simp add: no_space_byte_def space_seqs_def hash_def)

lemma takeWhile_no_hash: "hash \<notin> set u \<Longrightarrow> takeWhile (\<lambda>c. c \<noteq> hash) u = u"
  by (induction u) auto

lemma takeWhile_to_hash: "hash \<notin> set u \<Longrightarrow> takeWhile (\<lambda>c. c \<noteq> hash) (u @ hash # v) = u"
  by (induction u) auto

lemma trim_before_hash:
  "(case index_byte (trim_space raw) hash of
      Some idx \<Rightarrow> trim_space (take idx (trim_space raw))
    | None \<Rightarrow> trim_space raw) = trim_space (takeWhile (\<lambda>c. c \<noteq> hash) raw)"
proof (cases "hash \<in> set raw")
  case False
  then have "hash \<notin> set (trim_space raw)" using set_trim_space by blast
  with False show ?thesis by (simp add: takeWhile_no_hash)
next
  case True
  then obtain u v where raw: "raw = u @ hash # v" and u: "hash \<notin> set u"
    by (meson split_list_first)
  define w where "w = rev (strip_left (map rev space_seqs) (rev v))"
  have "hash \<notin> set (strip_left space_seqs u)" using u set_strip_left by blast
  then have "index_byte (trim_space raw) hash = Some (length (strip_left space_seqs u))"
    and "take (length (strip_left space_seqs u)) (trim_space raw) = strip_left space_seqs u"
    unfolding raw trim_space_stop [OF no_space_hash] w_def [symmetric]
    by (simp_all add: index_byte_append)
  then show ?thesis
    by (simp add: raw takeWhile_to_hash [OF u] trim_space_strip_left)
qed

lemma go_fields_Nil [simp]: "go_fields [] = []"
proof -
  have "next_seq space_seqs [] = None" by (simp add: next_seq_def find_None_iff)
  then show ?thesis by (simp add: go_fields_def fields_from.simps [of "[]" "[]"])
qed

lemma parse_fields_state_after:
  "parse_fields ul (state_after ul toks) line =
     state_after ul (toks @
       (case go_fields line of [] \<Rightarrow> []
        | first # rest \<Rightarrow> if first \<in> hosts_ips then rest else first # rest))"
  by (auto simp: parse_fields_def foldl_add_token add_token_state_after
      simp del: add_token.simps foldl_Cons split: list.split)

lemma parse_line_state_after:
  "parse_line ul (state_after ul toks) raw = state_after ul (toks @ line_tokens raw)"
proof -
  let ?ref = "trim_space (takeWhile (\<lambda>c. c \<noteq> hash) raw)"
  have "parse_line ul (state_after ul toks) raw = parse_fields ul (state_after ul toks) ?ref"
    using trim_before_hash [of raw]
    by (cases "index_byte (trim_space raw) hash")
       (auto simp: parse_line_def Let_def parse_fields_def)
  then show ?thesis by (simp add: parse_fields_state_after line_tokens_def)
qed

lemma foldl_parse_line:
  "foldl (parse_line ul) (state_after ul toks) ls =
     state_after ul (toks @ concat (map line_tokens ls))"
  by (induction ls arbitrary: toks) (simp_all add: parse_line_state_after)

lemma parse_lines_spec:
  "foldl (parse_line ul) ({}, []) ls =
     (set (kept ul (concat (map line_tokens ls))), hosts_spec ul ls)"
  using foldl_parse_line [of ul "[]" ls]
  by (simp add: state_after_def kept_def hosts_spec_def dedup_def)

section \<open>Facts about normalisation\<close>

lemma normalizeDomain_plain:
  "plain d \<Longrightarrow> normalizeDomain ul d = trim_suffix (map lower_byte d) ''.''"
  by (simp add: normalizeDomain_def to_lower_plain trim_space_plain plain_map_lower
      plain_no_mark trim_prefix_id trim_suffix_id Let_def)

lemma suffix_dot_iff: "suffix ''.'' d \<longleftrightarrow> d \<noteq> [] \<and> last d = CHR ''.''"
  by (cases d rule: rev_cases) (auto simp: suffix_def)

lemma lower_byte_dot [simp]: "lower_byte c = CHR ''.'' \<longleftrightarrow> c = CHR ''.''"
  by (rule lower_byte_eq_iff) (simp_all add: is_upper_Char is_lower_Char)

lemma lower_byte_dot_eq [simp]: "lower_byte CHR ''.'' = CHR ''.''"
  by simp

lemma map_lower_dot_suffix: "suffix ''.'' (map lower_byte d) \<longleftrightarrow> suffix ''.'' d"
  by (simp add: suffix_dot_iff last_map cong: conj_cong)

lemma plain_dot: "plain_byte CHR ''.''"
  by (simp add: plain_byte_def byte_of_Char)

section \<open>Facts about the scanner\<close>

lemma scan_lines_cons:
  assumes "newline \<notin> set l" "length l < mx"
  shows "scan_lines mx (l @ newline # rest) =
    (drop_cr l # fst (scan_lines mx rest), snd (scan_lines mx rest))"
  using assms
  by (simp add: scan_lines.simps [of mx "l @ newline # rest"] index_byte_append split_beta)

lemma scan_lines_Nil: "scan_lines mx [] = ([], False)"
  by (simp add: scan_lines.simps)

lemma scan_lines_last:
  "newline \<notin> set l \<Longrightarrow> l \<noteq> [] \<Longrightarrow> length l < mx \<Longrightarrow> scan_lines mx l = ([drop_cr l], False)"
  by (simp add: scan_lines.simps [of mx l])

lemma scan_lines_long:
  assumes "newline \<notin> set l" "mx \<le> length l" "0 < mx"
  shows "scan_lines mx (l @ rest) = ([], True)"
proof -
  have "\<not> i < mx" if "index_byte (l @ rest) newline = Some i" for i
  proof
    assume "i < mx"
    with assms have "i < length l" by simp
    with index_byte_nth [OF that] have "newline \<in> set l" by (metis nth_append nth_mem)
    with assms show False by simp
  qed
  moreover have "l @ rest \<noteq> []" using assms by auto
  ultimately show ?thesis
    using assms by (auto simp: scan_lines.simps [of mx "l @ rest"] split: option.split)
qed

text \<open>A file written line by line, each line ended by a line feed or by carriage return and line
  feed.\<close>

fun unlines :: "(string \<times> bool) list \<Rightarrow> string" where
  "unlines [] = []"
| "unlines ((l, crlf) # ls) =
     l @ (if crlf then [carriage_return, newline] else [newline]) @ unlines ls"

definition text_line :: "nat \<Rightarrow> string \<times> bool \<Rightarrow> bool" where
  "text_line mx x \<longleftrightarrow>
     newline \<notin> set (fst x) \<and> \<not> suffix [carriage_return] (fst x) \<and>
     length (fst x) + (if snd x then 1 else 0) < mx"

lemma cr_neq_nl [simp]: "carriage_return \<noteq> newline" "newline \<noteq> carriage_return"
  by (simp_all add: carriage_return_def newline_def)

lemma scan_lines_text_line:
  assumes "text_line mx (l, crlf)"
  shows "scan_lines mx (unlines ((l, crlf) # ls) @ rest) =
    (l # fst (scan_lines mx (unlines ls @ rest)), snd (scan_lines mx (unlines ls @ rest)))"
proof (cases crlf)
  case True
  have "scan_lines mx ((l @ [carriage_return]) @ newline # unlines ls @ rest) =
    (drop_cr (l @ [carriage_return]) # fst (scan_lines mx (unlines ls @ rest)),
     snd (scan_lines mx (unlines ls @ rest)))"
    by (rule scan_lines_cons) (use assms True in \<open>auto simp: text_line_def\<close>)
  with True show ?thesis by (simp add: drop_cr_def)
next
  case False
  have "scan_lines mx (l @ newline # unlines ls @ rest) =
    (drop_cr l # fst (scan_lines mx (unlines ls @ rest)), snd (scan_lines mx (unlines ls @ rest)))"
    by (rule scan_lines_cons) (use assms False in \<open>auto simp: text_line_def\<close>)
  with False assms show ?thesis by (simp add: drop_cr_def text_line_def trim_suffix_id)
qed

lemma scan_unlines_append:
  "list_all (text_line mx) ls \<Longrightarrow>
     scan_lines mx (unlines ls @ rest) =
       (map fst ls @ fst (scan_lines mx rest), snd (scan_lines mx rest))"
proof (induction ls)
  case (Cons x ls)
  then show ?case by (cases x) (simp add: scan_lines_text_line del: unlines.simps)
qed simp

section \<open>Properties\<close>

text \<open>
  C34. What \<^verbatim>\<open>ParseHosts\<close> computes, against a reference that has no scanner state: the domains are
  the first occurrences, in file order, of the valid normalised tokens of the scanned lines, where
  a line's tokens are the white-space separated fields before its first comment mark, less a
  leading sinkhole address.  The error is \<^verbatim>\<open>bufio.ErrTooLong\<close> when a line does not fit the
  buffer, else the reader's own error, else none; the domains read before an error are returned
  with it.
\<close>

theorem parse_hosts_correct:
  "ParseHosts ul r =
     (hosts_spec ul (fst (scan_lines max_token (rd_data r))),
      if snd (scan_lines max_token (rd_data r)) then Some (ErrReadingHosts ErrTooLong)
      else if rd_fail r then Some (ErrReadingHosts ErrRead) else None)"
  by (simp add: ParseHosts_def parse_lines_spec split_beta)

text \<open>
  Whatever the input, the domains \<^verbatim>\<open>ParseHosts\<close> returns are pairwise distinct, and each is
  non-empty, at most 253 bytes long, none of the ignored local host names, and free of the
  forbidden characters behind its wildcard prefix.
\<close>

theorem parse_hosts_valid:
  "distinct (fst (ParseHosts ul r)) \<and>
   set (fst (ParseHosts ul r)) \<subseteq>
     {d. d \<noteq> [] \<and> length d \<le> 253 \<and> d \<notin> ignoredHosts \<and>
         set (trim_prefix (trim_prefix d ''*.'') ''.'') \<inter> set invalid_chars = {}}"
proof -
  have "isValidDomain d \<Longrightarrow>
      d \<noteq> [] \<and> length d \<le> 253 \<and> d \<notin> ignoredHosts \<and>
      set (trim_prefix (trim_prefix d ''*.'') ''.'') \<inter> set invalid_chars = {}" for d
    by (auto simp: isValidDomain_def contains_any_def list_ex_iff Let_def split: if_splits)
  then show ?thesis
    by (auto simp: ParseHosts_def parse_lines_spec hosts_spec_def split_beta)
qed

text \<open>
  The scanner reads back a text file: lines without line feeds, none ending in a carriage
  return, each fitting the buffer with its terminator, written with either line ending, are
  delivered as they were, with no error; and when a longer line follows, exactly the lines before it
  are delivered, with the error.
\<close>

theorem scan_lines_roundtrip:
  assumes "list_all (text_line mx) ls"
  shows "scan_lines mx (unlines ls) = (map fst ls, False) \<and>
    (newline \<notin> set l \<and> mx \<le> length l \<and> 0 < mx \<longrightarrow>
       scan_lines mx (unlines ls @ l @ rest) = (map fst ls, True))"
  using scan_unlines_append [OF assms, of "[]"] scan_unlines_append [OF assms, of "l @ rest"]
  by (simp_all add: scan_lines_Nil scan_lines_long)

lemma scan_lines_roundtrip_witness:
  "scan_lines 6 (unlines [(''a.com'', False), (''b'', True)]) = ([''a.com'', ''b''], False) \<and>
   scan_lines 6 (unlines [(''a.com'', False), (''b'', True)] @ ''toolong'' @ ''x'') =
     ([''a.com'', ''b''], True)"
proof -
  have h: "list_all (text_line 6) [(''a.com'', False), (''b'', True)]"
    by (simp add: text_line_def newline_def carriage_return_def suffix_def)
  show ?thesis
    using scan_lines_roundtrip [OF h, of "''toolong''" "''x''"]
    by (simp add: newline_def)
qed

text \<open>
  Matching is insensitive to letter case and to the trailing dot of a fully qualified name: for
  any name of plain bytes that does not itself end in a dot, the name, its upper- or mixed-case
  spellings and each of these with a final dot normalise to the one lower-case name.
\<close>

theorem normalizeDomain_case_and_dot:
  assumes "plain d" "\<not> suffix ''.'' d" "map lower_byte e = map lower_byte d" "plain e"
  shows "normalizeDomain ul d = map lower_byte d \<and>
    normalizeDomain ul (d @ ''.'') = map lower_byte d \<and>
    normalizeDomain ul e = map lower_byte d \<and>
    normalizeDomain ul (e @ ''.'') = map lower_byte d"
proof -
  have *: "normalizeDomain ul x = map lower_byte d" "normalizeDomain ul (x @ ''.'') = map lower_byte d"
    if "plain x" "map lower_byte x = map lower_byte d" for x
    using that assms(2) trim_suffix_append [of "map lower_byte d" "''.''"]
    by (simp_all add: normalizeDomain_plain plain_dot map_lower_dot_suffix trim_suffix_id)
  show ?thesis using * [OF assms(1)] * [OF assms(4,3)] by simp
qed

lemma normalizeDomain_case_and_dot_witness:
  "normalizeDomain id ''GooGLE.com.'' = ''google.com''"
proof -
  have h: "plain ''google.com''" "\<not> suffix ''.'' ''google.com''"
    "map lower_byte ''GooGLE.com'' = map lower_byte ''google.com''" "plain ''GooGLE.com''"
    by (simp_all add: plain_byte_def byte_of_Char lower_byte_def is_upper_Char suffix_dot_iff)
  show ?thesis
    using normalizeDomain_case_and_dot [OF h, of id] by (simp add: lower_byte_def is_upper_Char)
qed

end
