(* ===== verification/Rule_Store.thy ===== *)
theory Rule_Store
  imports Go_Prelude "HOL-Library.Multiset"
begin

text \<open>
  The contract between the filter engine and the structures it keeps rules in: the exact-match
  hash sets, the domain tries, and the pair of them that a list of domains is loaded into.  A rule
  \<open>covers\<close> some queries; the store, built by inserting rules into an empty one, answers a query
  exactly when an inserted rule covers it.  What a client concludes about loading a list of
  rules is proved here once, and the interpretations are in the theories of the providers.
\<close>

locale rule_store =
  fixes empty :: 's
    and ins :: "'r \<Rightarrow> 's \<Rightarrow> 's"
    and mem :: "'s \<Rightarrow> 'q \<Rightarrow> bool"
    and covers :: "'r \<Rightarrow> 'q \<Rightarrow> bool"
    and inv :: "'s \<Rightarrow> bool"
  assumes inv_empty: "inv empty"
    and inv_ins: "inv s \<Longrightarrow> inv (ins r s)"
    and mem_empty: "\<not> mem empty q"
    and mem_ins: "inv s \<Longrightarrow> mem (ins r s) q \<longleftrightarrow> covers r q \<or> mem s q"
begin

lemma inv_fold: "inv s \<Longrightarrow> inv (fold ins rs s)"
  by (induction rs arbitrary: s) (simp_all add: inv_ins)

lemma mem_fold: "inv s \<Longrightarrow> mem (fold ins rs s) q \<longleftrightarrow> (\<exists>r \<in> set rs. covers r q) \<or> mem s q"
  by (induction rs arbitrary: s) (auto simp: inv_ins mem_ins)

lemma mem_fold_empty: "mem (fold ins rs empty) q \<longleftrightarrow> (\<exists>r \<in> set rs. covers r q)"
  by (simp add: mem_fold inv_empty mem_empty)

lemma mem_mono: "inv s \<Longrightarrow> mem s q \<Longrightarrow> mem (fold ins rs s) q"
  by (simp add: mem_fold)

end

text \<open>Stores for which the order of insertion does not matter at all, not even to the state.\<close>

locale commuting_store = rule_store +
  assumes ins_commute: "ins r (ins r' s) = ins r' (ins r s)"
begin

lemma fold_perm: "mset rs = mset rs' \<Longrightarrow> fold ins rs s = fold ins rs' s"
  by (rule fold_multiset_equiv [THEN fun_cong]) (auto simp: fun_eq_iff ins_commute)

end

end
