(* ===== verification/Domain_Trie.thy ===== *)
theory Domain_Trie
  imports Loader Rule_Store
begin

text \<open>
  \<^verbatim>\<open>internal/filter/engine.go\<close>, lines 15 to 158: the domain label trie.

  A \<^verbatim>\<open>TrieNode\<close>'s nil map of children reads as the empty map, so both are the empty HOL map; the
  tests for nil in \<^verbatim>\<open>Insert\<close> and \<^verbatim>\<open>Matches\<close> only allocate, or answer as the missing child does.
  The pointer \<^verbatim>\<open>curr\<close> that \<^verbatim>\<open>Insert\<close> walks through the tree it modifies is the path of labels from
  the root to the node it points to; \<^verbatim>\<open>Matches\<close> only reads, so its \<^verbatim>\<open>curr\<close> is the node itself.
  A trie is only built by \<^verbatim>\<open>NewDomainTrie\<close>, so its root is never nil.  The read-write mutex makes
  each operation atomic and is not modelled.
\<close>

section \<open>Data\<close>

datatype trie_node =
  TrieNode (children: "string \<Rightarrow> trie_node option") (isExact: bool) (isWildcard: bool)

definition newTrieNode :: trie_node where
  "newTrieNode = TrieNode Map.empty False False"

record domain_trie =
  root :: trie_node
  count :: int

definition NewDomainTrie :: domain_trie where
  "NewDomainTrie = \<lparr>root = newTrieNode, count = 0\<rparr>"

definition HasRules :: "domain_trie \<Rightarrow> bool" where
  "HasRules t \<longleftrightarrow> count t > 0"

section \<open>The label iterator\<close>

text \<open>
  The loop of \<^verbatim>\<open>iterateDomainLabelsReverse\<close> from the position \<open>e\<close> (Go's \<^verbatim>\<open>end\<close>); the callback's
  captured variables are the state \<open>st\<close>, and its second result says whether to go on.
\<close>

definition next_label :: "string \<Rightarrow> nat \<Rightarrow> string \<times> nat" where
  "next_label domain e =
     (case last_index_byte (take e domain) CHR ''.'' of
        None \<Rightarrow> (take e domain, 0)
      | Some idx \<Rightarrow> (drop (idx + 1) (take e domain), idx))"

lemma next_label_less [termination_simp]: "0 < e \<Longrightarrow> snd (next_label domain e) < e"
  by (auto simp: next_label_def split: option.split dest: last_index_byte_SomeD)

function iterate_from ::
  "(string \<Rightarrow> 's \<Rightarrow> 's \<times> bool) \<Rightarrow> string \<Rightarrow> nat \<Rightarrow> 's \<Rightarrow> 's" where
  "iterate_from fn domain e st =
     (if e = 0 then st
      else
        (let (label, e') = next_label domain e in
         if label \<noteq> [] then
           (let (st', go) = fn label st in
            if go then iterate_from fn domain e' st' else st')
         else iterate_from fn domain e' st))"
  by pat_completeness auto
termination
  by (relation "measure (\<lambda>(fn, domain, e, st). e)")
     (auto, (metis next_label_less snd_conv)+)

declare iterate_from.simps [simp del]

definition iterateDomainLabelsReverse ::
  "string \<Rightarrow> (string \<Rightarrow> 's \<Rightarrow> 's \<times> bool) \<Rightarrow> 's \<Rightarrow> 's" where
  "iterateDomainLabelsReverse domain fn st = iterate_from fn domain (length domain) st"

section \<open>Insert and Matches\<close>

fun node_at :: "trie_node \<Rightarrow> string list \<Rightarrow> trie_node option" where
  "node_at n [] = Some n"
| "node_at n (l # p) = (case children n l of None \<Rightarrow> None | Some c \<Rightarrow> node_at c p)"

fun modify_at :: "string list \<Rightarrow> (trie_node \<Rightarrow> trie_node) \<Rightarrow> trie_node \<Rightarrow> trie_node" where
  "modify_at [] f n = f n"
| "modify_at (l # p) f (TrieNode ch ex wi) =
     (case ch l of
        None \<Rightarrow> TrieNode ch ex wi
      | Some c \<Rightarrow> TrieNode (ch(l \<mapsto> modify_at p f c)) ex wi)"

definition ensure_child :: "string \<Rightarrow> trie_node \<Rightarrow> trie_node" where
  "ensure_child label n =
     (case children n label of
        Some next \<Rightarrow> n
      | None \<Rightarrow> TrieNode ((children n)(label \<mapsto> newTrieNode)) (isExact n) (isWildcard n))"

definition set_flag :: "bool \<Rightarrow> trie_node \<Rightarrow> trie_node" where
  "set_flag wild n =
     (if wild then TrieNode (children n) (isExact n) True
      else TrieNode (children n) True (isWildcard n))"

fun insert_step ::
  "string \<Rightarrow> trie_node \<times> string list \<times> bool \<Rightarrow> (trie_node \<times> string list \<times> bool) \<times> bool" where
  "insert_step label (rt, cur, hasLabels) =
     ((modify_at cur (ensure_child label) rt, cur @ [label], True), True)"

definition wildcard_form :: "string \<Rightarrow> bool \<Rightarrow> string \<times> bool" where
  "wildcard_form d wild =
     (if has_prefix d ''*.'' then (trim_prefix d ''*.'', True)
      else if has_prefix d ''.'' then (trim_prefix d ''.'', True)
      else (d, wild))"

definition Insert ::
  "(string \<Rightarrow> string) \<Rightarrow> domain_trie \<Rightarrow> string \<Rightarrow> bool \<Rightarrow> domain_trie" where
  "Insert ul t domain wild0 =
     (let d0 = normalizeDomain ul domain in
      if d0 = [] then t
      else
        (let (d, wild) = wildcard_form d0 wild0;
             (rt, cur, hasLabels) =
               iterateDomainLabelsReverse d insert_step (root t, [], False)
         in if hasLabels then \<lparr>root = modify_at cur (set_flag wild) rt, count = count t + 1\<rparr>
            else t\<lparr>root := rt\<rparr>))"

fun match_step :: "string \<Rightarrow> trie_node \<times> bool \<Rightarrow> (trie_node \<times> bool) \<times> bool" where
  "match_step label (cur, consumed) =
     (case children cur label of
        None \<Rightarrow> ((cur, False), False)
      | Some next \<Rightarrow> ((next, consumed), \<not> isWildcard next))"

definition Matches :: "(string \<Rightarrow> string) \<Rightarrow> domain_trie \<Rightarrow> string \<Rightarrow> bool" where
  "Matches ul t domain =
     (if count t = 0 then False
      else
        (let d = normalizeDomain ul domain in
         if d = [] then False
         else
           (let (cur, consumed) =
              iterateDomainLabelsReverse d match_step (root t, True)
            in if isWildcard cur then True else consumed \<and> isExact cur)))"

section \<open>The iterator visits the labels from the right\<close>

fun split_on :: "char \<Rightarrow> string \<Rightarrow> string list" where
  "split_on c [] = [[]]"
| "split_on c (x # s) =
     (if x = c then [] # split_on c s
      else (case split_on c s of [] \<Rightarrow> [[x]] | w # ws \<Rightarrow> (x # w) # ws))"

text \<open>The non-empty labels of a name, top-level domain first.\<close>

definition labels :: "string \<Rightarrow> string list" where
  "labels d = rev (filter (\<lambda>l. l \<noteq> []) (split_on CHR ''.'' d))"

fun walk :: "(string \<Rightarrow> 's \<Rightarrow> 's \<times> bool) \<Rightarrow> string list \<Rightarrow> 's \<Rightarrow> 's" where
  "walk fn [] st = st"
| "walk fn (l # ls) st = (let (st', go) = fn l st in if go then walk fn ls st' else st')"

lemma split_on_nonempty [simp]: "split_on c s \<noteq> []"
  by (induction s) (auto split: list.split)

lemma split_on_append: "split_on c (u @ c # v) = split_on c u @ split_on c v"
  by (induction u) (auto split: list.split)

lemma split_on_absent: "c \<notin> set v \<Longrightarrow> split_on c v = [v]"
  by (induction v) auto

lemma labels_Nil [simp]: "labels [] = []"
  by (simp add: labels_def)

lemma labels_next:
  assumes "0 < e" "e \<le> length d" and nl: "next_label d e = (l, e')"
  shows "labels (take e d) = (if l = [] then [] else [l]) @ labels (take e' d)"
proof (cases "last_index_byte (take e d) CHR ''.''")
  case None
  with nl have "l = take e d" "e' = 0" by (auto simp: next_label_def)
  with None show ?thesis by (simp add: labels_def split_on_absent)
next
  case (Some i)
  define t where "t = take e d"
  from Some nl have l: "l = drop (Suc i) t" "e' = i" by (auto simp: next_label_def t_def)
  from last_index_byte_SomeD [OF Some, folded t_def]
  have t: "t = take i t @ CHR ''.'' # l" "CHR ''.'' \<notin> set l" "i < length t"
    unfolding l by blast+
  have "i < e" using t(3) by (simp add: t_def)
  then have "take i t = take e' d" by (simp add: t_def l(2) min_absorb1)
  moreover have "labels (take i t @ CHR ''.'' # l) =
      (if l = [] then [] else [l]) @ labels (take i t)"
    using t(2) by (simp add: labels_def split_on_append split_on_absent)
  ultimately show ?thesis using t(1) by (simp add: t_def)
qed

lemma iterate_from_walk:
  "e \<le> length d \<Longrightarrow> iterate_from fn d e st = walk fn (labels (take e d)) st"
proof (induction fn d e st rule: iterate_from.induct)
  case (1 fn d e st)
  show ?case
  proof (cases "e = 0")
    case True
    then show ?thesis by (simp add: iterate_from.simps)
  next
    case False
    obtain l e' where nl: "next_label d e = (l, e')" by (cases "next_label d e")
    with False next_label_less [of e d] have "e' < e" by simp
    then show ?thesis
      using False nl 1 labels_next [OF _ "1.prems" nl]
      by (auto simp: iterate_from.simps [of fn d e st] split: prod.split)
  qed
qed

lemma iterate_walk: "iterateDomainLabelsReverse d fn st = walk fn (labels d) st"
  by (simp add: iterateDomainLabelsReverse_def iterate_from_walk)

section \<open>The nodes a path leads to\<close>

fun insert_path :: "string list \<Rightarrow> bool \<Rightarrow> trie_node \<Rightarrow> trie_node" where
  "insert_path [] wild n = set_flag wild n"
| "insert_path (l # p) wild n =
     TrieNode
       ((children n)(l \<mapsto> insert_path p wild (case children n l of None \<Rightarrow> newTrieNode | Some c \<Rightarrow> c)))
       (isExact n) (isWildcard n)"

lemma modify_at_append: "modify_at (p @ q) f n = modify_at p (modify_at q f) n"
  by (induction p f n rule: modify_at.induct) (auto split: option.split)

lemma modify_at_modify_at: "modify_at p f (modify_at p g n) = modify_at p (f \<circ> g) n"
  by (induction p g n rule: modify_at.induct) (auto split: option.split)

lemma modify_at_ensure: "modify_at [l] (insert_path p w) (ensure_child l n) = insert_path (l # p) w n"
  by (cases n) (auto simp: ensure_child_def fun_upd_idem split: option.split)

lemma insert_walk:
  "fst (snd (walk insert_step ls (rt, p, h))) = p @ ls \<and>
   snd (snd (walk insert_step ls (rt, p, h))) = (h \<or> ls \<noteq> []) \<and>
   modify_at (p @ ls) (set_flag w) (fst (walk insert_step ls (rt, p, h))) =
     modify_at p (insert_path ls w) rt"
proof (induction ls arbitrary: rt p h)
  case Nil
  have "insert_path [] w = set_flag w" by (rule ext) simp
  then show ?case by simp
next
  case (Cons l ls)
  let ?rt = "modify_at p (ensure_child l) rt"
  have "modify_at (p @ [l]) (insert_path ls w) ?rt = modify_at p (insert_path (l # ls) w) rt"
    by (simp only: modify_at_append modify_at_modify_at comp_def modify_at_ensure)
  with Cons.IH [of ?rt "p @ [l]" True] show ?case by (simp del: insert_path.simps)
qed

lemma Insert_eq:
  "Insert ul t domain wild0 =
     (let d0 = normalizeDomain ul domain in
      if d0 = [] then t
      else
        (let (d, wild) = wildcard_form d0 wild0 in
         if labels d = [] then t
         else \<lparr>root = insert_path (labels d) wild (root t), count = count t + 1\<rparr>))"
proof -
  obtain d wild where w: "wildcard_form (normalizeDomain ul domain) wild0 = (d, wild)"
    by (cases "wildcard_form (normalizeDomain ul domain) wild0")
  obtain rt cur h where r: "walk insert_step (labels d) (root t, [], False) = (rt, cur, h)"
    by (cases "walk insert_step (labels d) (root t, [], False)")
  show ?thesis
    using insert_walk [of "labels d" "root t" "[]" False wild] r w
    by (cases "labels d = []") (auto simp: Insert_def iterate_walk Let_def)
qed

section \<open>What a trie denotes\<close>

text \<open>
  A rule is a path of labels from the top-level domain down, with the wildcard mark; a wildcard
  covers its own name and every name below it, an exact rule its own name only.
\<close>

type_synonym trie_rule = "string list \<times> bool"

fun covers :: "trie_rule \<Rightarrow> string list \<Rightarrow> bool" where
  "covers (p, wild) ls = (if wild then prefix p ls else ls = p)"

definition rules_of :: "trie_node \<Rightarrow> trie_rule set" where
  "rules_of n =
     {(p, w). \<exists>m. node_at n p = Some m \<and> (if w then isWildcard m else isExact m)}"

text \<open>Matching, one label at a time.\<close>

fun match_from :: "trie_node \<Rightarrow> string list \<Rightarrow> bool" where
  "match_from n [] = (isWildcard n \<or> isExact n)"
| "match_from n (l # ls) =
     (case children n l of
        None \<Rightarrow> isWildcard n
      | Some c \<Rightarrow> isWildcard c \<or> match_from c ls)"

lemma match_walk:
  "(case walk match_step ls (n, True) of
      (cur, consumed) \<Rightarrow> isWildcard cur \<or> consumed \<and> isExact cur) = match_from n ls"
  by (induction n ls rule: match_from.induct) (auto split: option.split)

lemma Matches_eq:
  "Matches ul t domain \<longleftrightarrow>
     count t \<noteq> 0 \<and> normalizeDomain ul domain \<noteq> [] \<and>
     match_from (root t) (labels (normalizeDomain ul domain))"
  using match_walk [of "labels (normalizeDomain ul domain)" "root t"]
  by (auto simp: Matches_def iterate_walk Let_def split: prod.splits)

lemma rules_of_Nil: "([], w) \<in> rules_of n \<longleftrightarrow> (if w then isWildcard n else isExact n)"
  by (simp add: rules_of_def)

lemma rules_of_Cons:
  "(l # p, w) \<in> rules_of n \<longleftrightarrow> (\<exists>c. children n l = Some c \<and> (p, w) \<in> rules_of c)"
  by (auto simp: rules_of_def split: option.splits)

lemma rules_of_new [simp]: "rules_of newTrieNode = {}"
proof -
  have "r \<notin> rules_of newTrieNode" for r
  proof (cases r)
    case (Pair p w)
    then show ?thesis by (cases p) (auto simp: rules_of_Nil rules_of_Cons newTrieNode_def)
  qed
  then show ?thesis by blast
qed

lemma rules_of_insert_path:
  "(q, v) \<in> rules_of (insert_path p w n) \<longleftrightarrow> (q, v) = (p, w) \<or> (q, v) \<in> rules_of n"
proof (induction p arbitrary: n q)
  case Nil
  then show ?case by (cases q) (auto simp: rules_of_Nil rules_of_Cons set_flag_def)
next
  case (Cons l p)
  show ?case
  proof (cases q)
    case Nil
    then show ?thesis by (auto simp: rules_of_Nil)
  next
    case (Cons k q')
    then show ?thesis
      by (auto simp: rules_of_Cons Cons.IH split: option.splits)
  qed
qed

lemma match_from_covers:
  "\<not> isWildcard n \<Longrightarrow> match_from n ls \<longleftrightarrow> (\<exists>r \<in> rules_of n. covers r ls)"
proof (induction n ls rule: match_from.induct)
  case (1 n)
  then show ?case
    by (auto simp: rules_of_Nil split: if_splits intro: bexI [of _ "([], False)"])
next
  case (2 n l ls)
  have split: "(\<exists>r \<in> rules_of n. covers r (l # ls)) \<longleftrightarrow>
      (\<exists>c. children n l = Some c \<and> (\<exists>r \<in> rules_of c. covers r ls))"
  proof
    assume "\<exists>r \<in> rules_of n. covers r (l # ls)"
    then obtain p w where r: "(p, w) \<in> rules_of n" "covers (p, w) (l # ls)" by auto
    with "2.prems" obtain p' where "p = l # p'"
      by (cases p) (auto simp: rules_of_Nil split: if_splits)
    with r show "\<exists>c. children n l = Some c \<and> (\<exists>r \<in> rules_of c. covers r ls)"
      by (auto simp: rules_of_Cons split: if_splits intro: bexI [of _ "(p', w)"])
  next
    assume "\<exists>c. children n l = Some c \<and> (\<exists>r \<in> rules_of c. covers r ls)"
    then obtain c p w where "children n l = Some c" "(p, w) \<in> rules_of c" "covers (p, w) ls"
      by auto
    then show "\<exists>r \<in> rules_of n. covers r (l # ls)"
      by (intro bexI [of _ "(l # p, w)"]) (auto simp: rules_of_Cons)
  qed
  have wild: "\<exists>r \<in> rules_of c. covers r ls" if "isWildcard c" for c
    using that by (intro bexI [of _ "([], True)"]) (auto simp: rules_of_Nil)
  show ?case
    using 2 wild by (auto simp: split simp del: covers.simps split: option.split)
qed

section \<open>The invariant, and what a trie of inserted rules answers\<close>

definition trie_wf :: "domain_trie \<Rightarrow> bool" where
  "trie_wf t \<longleftrightarrow>
     \<not> isExact (root t) \<and> \<not> isWildcard (root t) \<and> 0 \<le> count t \<and>
     (count t = 0 \<longleftrightarrow> rules_of (root t) = {})"

text \<open>The rule an inserted domain adds, if any.\<close>

definition rule_for :: "(string \<Rightarrow> string) \<Rightarrow> string \<times> bool \<Rightarrow> trie_rule option" where
  "rule_for ul x =
     (let d0 = normalizeDomain ul (fst x) in
      if d0 = [] then None
      else (let (d, wild) = wildcard_form d0 (snd x) in
            if labels d = [] then None else Some (labels d, wild)))"

lemma Insert_rule_for:
  "Insert ul t domain wild =
     (case rule_for ul (domain, wild) of
        None \<Rightarrow> t
      | Some (p, w) \<Rightarrow> \<lparr>root = insert_path p w (root t), count = count t + 1\<rparr>)"
  by (simp add: Insert_eq rule_for_def Let_def split_beta)

lemma rule_for_nonempty: "rule_for ul x = Some (p, w) \<Longrightarrow> p \<noteq> []"
  by (auto simp: rule_for_def Let_def split_beta split: if_splits)

lemma insert_path_root_flags:
  "p \<noteq> [] \<Longrightarrow> isExact (insert_path p w n) = isExact n \<and> isWildcard (insert_path p w n) = isWildcard n"
  by (cases p) auto

lemma rules_of_Insert:
  "rules_of (root (Insert ul t domain wild)) =
     set_option (rule_for ul (domain, wild)) \<union> rules_of (root t)"
  by (auto simp: Insert_rule_for rules_of_insert_path split: option.split prod.split)

lemma trie_wf_new [simp, wf_intros]: "trie_wf NewDomainTrie"
  by (simp add: trie_wf_def NewDomainTrie_def) (simp add: newTrieNode_def)

lemma trie_wf_Insert [wf_intros]: "trie_wf t \<Longrightarrow> trie_wf (Insert ul t domain wild)"
  using rules_of_Insert [of ul t domain wild]
  by (auto simp: trie_wf_def Insert_rule_for insert_path_root_flags rule_for_nonempty
      split: option.splits)

lemma Matches_covers:
  "trie_wf t \<Longrightarrow>
     Matches ul t q \<longleftrightarrow>
       normalizeDomain ul q \<noteq> [] \<and>
       (\<exists>r \<in> rules_of (root t). covers r (labels (normalizeDomain ul q)))"
  by (auto simp: Matches_eq match_from_covers trie_wf_def)

lemma Matches_HasRules: "trie_wf t \<Longrightarrow> Matches ul t q \<Longrightarrow> HasRules t"
  by (auto simp: Matches_eq HasRules_def trie_wf_def)

text \<open>When an inserted rule covers a queried name.\<close>

definition rule_covers :: "(string \<Rightarrow> string) \<Rightarrow> string \<times> bool \<Rightarrow> string \<Rightarrow> bool" where
  "rule_covers ul x q \<longleftrightarrow>
     normalizeDomain ul q \<noteq> [] \<and>
     (\<exists>r \<in> set_option (rule_for ul x). covers r (labels (normalizeDomain ul q)))"

definition insert_rule :: "(string \<Rightarrow> string) \<Rightarrow> string \<times> bool \<Rightarrow> domain_trie \<Rightarrow> domain_trie" where
  "insert_rule ul x t = Insert ul t (fst x) (snd x)"

lemma set_flag_commute: "set_flag w (set_flag v n) = set_flag v (set_flag w n)"
  by (simp add: set_flag_def)

lemma insert_path_set_flag: "insert_path p w (set_flag v n) = set_flag v (insert_path p w n)"
  by (cases p) (auto simp: set_flag_def)

lemma insert_path_commute:
  "insert_path p w (insert_path q v n) = insert_path q v (insert_path p w n)"
proof (induction p arbitrary: q n)
  case Nil
  then show ?case by (simp add: insert_path_set_flag)
next
  case (Cons l p)
  show ?case
  proof (cases q)
    case Nil
    then show ?thesis by (simp add: insert_path_set_flag del: insert_path.simps(2))
  next
    case (Cons k q')
    then show ?thesis by (cases "k = l") (auto simp: Cons.IH fun_upd_twist)
  qed
qed

lemma insert_rule_commute:
  "insert_rule ul x (insert_rule ul y t) = insert_rule ul y (insert_rule ul x t)"
  by (auto simp: insert_rule_def Insert_rule_for insert_path_commute split: option.split)

interpretation trie: commuting_store
  NewDomainTrie "insert_rule ul" "Matches ul" "rule_covers ul" trie_wf for ul
proof unfold_locales
  show "trie_wf NewDomainTrie" by simp
  show "trie_wf (insert_rule ul r s)" if "trie_wf s" for s r
    using that by (simp add: insert_rule_def trie_wf_Insert)
  show "\<not> Matches ul NewDomainTrie q" for q
    by (simp add: Matches_def NewDomainTrie_def)
  show "Matches ul (insert_rule ul r s) q \<longleftrightarrow> rule_covers ul r q \<or> Matches ul s q"
    if "trie_wf s" for s r q
    using that
    by (auto simp: Matches_covers trie_wf_Insert insert_rule_def rules_of_Insert rule_covers_def)
  show "insert_rule ul r (insert_rule ul r' s) = insert_rule ul r' (insert_rule ul r s)" for r r' s
    by (rule insert_rule_commute)
qed

section \<open>Names as strings\<close>

text \<open>
  For well-formed names the label relation is the string relation one expects: a wildcard covers the
  name itself and the names that end in a dot and the name.
\<close>

definition dotted :: "string \<Rightarrow> bool" where
  "dotted d \<longleftrightarrow> [] \<notin> set (split_on CHR ''.'' d)"

fun join :: "string list \<Rightarrow> string" where
  "join [] = []"
| "join [w] = w"
| "join (w # ws) = w @ ''.'' @ join ws"

lemma join_Cons: "ws \<noteq> [] \<Longrightarrow> join (w # ws) = w @ ''.'' @ join ws"
  by (cases ws) auto

lemma join_append: "us \<noteq> [] \<Longrightarrow> vs \<noteq> [] \<Longrightarrow> join (us @ vs) = join us @ ''.'' @ join vs"
proof (induction us)
  case (Cons u us)
  then show ?case by (cases "us = []") (simp_all add: join_Cons)
qed simp

lemma join_split_on: "join (split_on CHR ''.'' d) = d"
proof (induction d)
  case (Cons x d)
  show ?case
  proof (cases "x = CHR ''.''")
    case True
    with Cons show ?thesis by (simp add: join_Cons)
  next
    case False
    obtain w ws where w: "split_on CHR ''.'' d = w # ws"
      by (cases "split_on CHR ''.'' d") auto
    with Cons False show ?thesis by (cases ws) auto
  qed
qed simp

lemma split_on_inj: "split_on CHR ''.'' d = split_on CHR ''.'' e \<Longrightarrow> d = e"
  by (metis join_split_on)

lemma labels_dotted: "dotted d \<Longrightarrow> labels d = rev (split_on CHR ''.'' d)"
proof -
  assume "dotted d"
  then have "filter (\<lambda>l. l \<noteq> []) (split_on CHR ''.'' d) = split_on CHR ''.'' d"
    by (auto simp: dotted_def filter_id_conv)
  then show ?thesis by (simp add: labels_def)
qed

lemma suffix_split_on:
  "suffix (split_on CHR ''.'' d) (split_on CHR ''.'' q) \<longleftrightarrow> q = d \<or> suffix (''.'' @ d) q"
proof
  assume "suffix (split_on CHR ''.'' d) (split_on CHR ''.'' q)"
  then obtain us where us: "split_on CHR ''.'' q = us @ split_on CHR ''.'' d"
    by (auto simp: suffix_def)
  show "q = d \<or> suffix (''.'' @ d) q"
  proof (cases "us = []")
    case True
    with us show ?thesis by (auto dest: split_on_inj)
  next
    case False
    then have "join (us @ split_on CHR ''.'' d) = join us @ ''.'' @ d"
      by (simp add: join_append join_split_on)
    with us have "q = join us @ ''.'' @ d" by (metis join_split_on)
    then show ?thesis by (auto simp: suffix_def)
  qed
next
  assume "q = d \<or> suffix (''.'' @ d) q"
  then show "suffix (split_on CHR ''.'' d) (split_on CHR ''.'' q)"
    by (auto simp: suffix_def split_on_append)
qed

lemma covers_dotted:
  assumes "dotted d" "dotted q"
  shows "covers (labels d, wild) (labels q) \<longleftrightarrow> q = d \<or> wild \<and> suffix (''.'' @ d) q"
  using assms suffix_split_on [of d q]
  by (auto simp: labels_dotted suffix_to_prefix [symmetric] dest: split_on_inj)

lemma dotted_nonempty: "dotted d \<Longrightarrow> d \<noteq> []"
  by (auto simp: dotted_def)

lemma dotted_no_trailing_dot: "dotted d \<Longrightarrow> \<not> suffix ''.'' d"
  by (auto simp: dotted_def suffix_def split_on_append)

lemma dotted_no_leading_dot: "dotted d \<Longrightarrow> \<not> prefix ''.'' d"
  by (auto simp: dotted_def prefix_def)

text \<open>A canonical host name: plain lower-case bytes, no empty label, no leading asterisk label.\<close>

definition host_name :: "string \<Rightarrow> bool" where
  "host_name d \<longleftrightarrow>
     plain d \<and> map lower_byte d = d \<and> dotted d \<and> \<not> prefix ''*.'' d"

lemma normalize_host: "host_name d \<Longrightarrow> normalizeDomain ul d = d"
  by (simp add: host_name_def normalizeDomain_plain trim_suffix_id dotted_no_trailing_dot)

lemma normalize_fqdn: "host_name d \<Longrightarrow> normalizeDomain ul (d @ ''.'') = d"
  by (simp add: host_name_def normalizeDomain_plain plain_dot)

lemma host_name_labels: "host_name d \<Longrightarrow> labels d \<noteq> []"
  by (simp add: host_name_def labels_dotted)

lemma rule_for_host: "host_name d \<Longrightarrow> rule_for ul (d, wild) = Some (labels d, wild)"
  by (simp add: rule_for_def normalize_host wildcard_form_def has_prefix_def host_name_labels
      dotted_nonempty dotted_no_leading_dot host_name_def)

lemma rule_covers_host:
  "host_name d \<Longrightarrow> host_name q \<Longrightarrow>
     rule_covers ul (d, wild) q \<longleftrightarrow> q = d \<or> wild \<and> suffix (''.'' @ d) q"
  using covers_dotted [of d q wild]
  by (auto simp: rule_covers_def rule_for_host normalize_host host_name_def dotted_nonempty
      simp del: covers.simps)

lemma normalize_wildcard_text:
  assumes "host_name d"
  shows "normalizeDomain ul (''*.'' @ d) = ''*.'' @ d" "normalizeDomain ul (''.'' @ d) = ''.'' @ d"
proof -
  have "\<not> suffix ''.'' (''*.'' @ d)" "\<not> suffix ''.'' (''.'' @ d)"
    using assms dotted_no_trailing_dot dotted_nonempty
    by (auto simp: host_name_def suffix_dot_iff)
  moreover have "plain (''*.'' @ d)" "map lower_byte (''*.'' @ d) = ''*.'' @ d"
    "plain (''.'' @ d)" "map lower_byte (''.'' @ d) = ''.'' @ d"
    using assms by (simp_all add: host_name_def plain_byte_def byte_of_Char lower_byte_def is_upper_Char)
  ultimately show "normalizeDomain ul (''*.'' @ d) = ''*.'' @ d"
    "normalizeDomain ul (''.'' @ d) = ''.'' @ d"
    by (simp_all only: normalizeDomain_plain trim_suffix_id not_False_eq_True)
qed

lemma count_fold_insert:
  "count (fold (insert_rule ul) rs t) =
     count t + int (length (filter (\<lambda>x. rule_for ul x \<noteq> None) rs))"
  by (induction rs arbitrary: t)
     (auto simp: insert_rule_def Insert_rule_for split: option.split prod.split)

text \<open>
  How a rule is written: a host name \<open>d\<close>, plain or behind a wildcard prefix, with or without the final
  dot.  A prefix makes it a wildcard whatever the argument of \<^verbatim>\<open>Insert\<close> says.
\<close>

definition written :: "string \<times> bool \<Rightarrow> string \<Rightarrow> bool \<Rightarrow> bool" where
  "written x d wild \<longleftrightarrow>
     host_name d \<and>
     (fst x \<in> {d, d @ ''.''} \<and> wild = snd x \<or>
      fst x \<in> {''*.'' @ d, ''.'' @ d, ''*.'' @ d @ ''.'', ''.'' @ d @ ''.''} \<and> wild)"

lemma normalize_wildcard_fqdn:
  assumes "host_name d"
  shows "normalizeDomain ul (''*.'' @ d @ ''.'') = ''*.'' @ d"
    "normalizeDomain ul (''.'' @ d @ ''.'') = ''.'' @ d"
proof -
  have "trim_suffix (''*.'' @ d @ ''.'') ''.'' = ''*.'' @ d" "trim_suffix (''.'' @ d @ ''.'') ''.'' = ''.'' @ d"
    using trim_suffix_append [of "''*.'' @ d" "''.''"] trim_suffix_append [of "''.'' @ d" "''.''"] by simp_all
  moreover have "plain (''*.'' @ d @ ''.'')" "map lower_byte (''*.'' @ d @ ''.'') = ''*.'' @ d @ ''.''"
    "plain (''.'' @ d @ ''.'')" "map lower_byte (''.'' @ d @ ''.'') = ''.'' @ d @ ''.''"
    using assms by (simp_all add: host_name_def plain_byte_def byte_of_Char lower_byte_def is_upper_Char)
  ultimately show "normalizeDomain ul (''*.'' @ d @ ''.'') = ''*.'' @ d"
    "normalizeDomain ul (''.'' @ d @ ''.'') = ''.'' @ d"
    by (simp_all only: normalizeDomain_plain)
qed

lemma rule_for_written: "written x d wild \<Longrightarrow> rule_for ul x = Some (labels d, wild)"
  using normalize_wildcard_text [of d ul] normalize_wildcard_fqdn [of d ul] normalize_host [of d ul]
    normalize_fqdn [of d ul] host_name_labels [of d] dotted_no_leading_dot [of d] dotted_nonempty [of d]
  by (cases x)
     (auto simp: written_def rule_for_def wildcard_form_def has_prefix_def host_name_def trim_prefix_def)

lemma rule_covers_written:
  assumes "written x d wild" "host_name q" "q' \<in> {q, q @ ''.''}"
  shows "rule_covers ul x q' \<longleftrightarrow> q = d \<or> wild \<and> suffix (''.'' @ d) q"
proof -
  have "normalizeDomain ul q' = q" using assms(2,3) by (auto simp: normalize_host normalize_fqdn)
  moreover have "dotted d" "dotted q" using assms(1,2) by (simp_all add: written_def host_name_def)
  ultimately show ?thesis
    using covers_dotted [of d q wild] dotted_nonempty [of q]
    by (simp add: rule_covers_def rule_for_written [OF assms(1)] del: covers.simps)
qed

lemma written_unique: "written x d wild \<Longrightarrow> written x e v \<Longrightarrow> d = e \<and> wild = v"
  using rule_for_written [of x d wild id] rule_for_written [of x e v id]
  by (auto simp: written_def host_name_def labels_dotted dest: split_on_inj)

section \<open>Properties\<close>

text \<open>
  The allocation-free iterator is a right-to-left walk: it calls the callback on the non-empty
  labels of the name, last label first, threading the captured variables and stopping when the
  callback says so.
\<close>

theorem iterate_labels_correct:
  "iterateDomainLabelsReverse d fn st = walk fn (rev (filter (\<lambda>l. l \<noteq> []) (split_on CHR ''.'' d))) st"
  using iterate_walk [of d fn st] by (simp add: labels_def)

text \<open>
  C12. A trie filled by any sequence of insertions of well-formed texts, a host name written plainly or
  behind \<^verbatim>\<open>*.\<close> or \<^verbatim>\<open>.\<close>, with or without a final dot, matches a canonical host name (with or without a
  final dot) exactly when one of the inserted texts names it: a text that is not a wildcard its own
  name only, a wildcard (by its prefix, or by the argument of \<^verbatim>\<open>Insert\<close>) its own name and every name
  below it, on whole labels (\<^verbatim>\<open>othergoogle.com\<close> is not below \<^verbatim>\<open>google.com\<close>).
\<close>

theorem trie_matches_iff:
  assumes "\<forall>x \<in> set rs. \<exists>d wild. written x d wild" "host_name q" "q' \<in> {q, q @ ''.''}"
  shows "Matches ul (fold (insert_rule ul) rs NewDomainTrie) q' \<longleftrightarrow>
    (\<exists>x \<in> set rs. \<exists>d wild. written x d wild \<and> (q = d \<or> wild \<and> suffix (''.'' @ d) q))"
proof -
  have "rule_covers ul x q' \<longleftrightarrow> (\<exists>d wild. written x d wild \<and> (q = d \<or> wild \<and> suffix (''.'' @ d) q))"
    if "x \<in> set rs" for x
  proof -
    from assms(1) that obtain d0 w0 where "written x d0 w0" by blast
    from rule_covers_written [OF _ assms(2,3), of x _ _ ul] this show ?thesis by metis
  qed
  then show ?thesis by (simp add: trie.mem_fold_empty)
qed

lemma trie_matches_iff_witness:
  "\<not> Matches id (fold (insert_rule id) [(''*.google.com'', True)] NewDomainTrie) ''othergoogle.com'' \<and>
   Matches id (fold (insert_rule id) [(''*.google.com'', True)] NewDomainTrie) ''a.google.com.''"
proof -
  have h: "host_name ''google.com''" "host_name ''othergoogle.com''" "host_name ''a.google.com''"
    by (simp_all add: host_name_def dotted_def plain_byte_def byte_of_Char lower_byte_def is_upper_Char)
  have w: "written (''*.google.com'', True) ''google.com'' True"
    using h(1) by (simp add: written_def)
  have all: "\<forall>x \<in> set [(''*.google.com'', True)]. \<exists>d wild. written x d wild"
    using w by auto
  have at: "(\<exists>x \<in> set [(''*.google.com'', True)]. \<exists>d wild. written x d wild \<and> R d wild) \<longleftrightarrow>
      R ''google.com'' True" for R
    using w by (auto dest: written_unique [OF w])
  have "suffix (''.'' @ ''google.com'') ''a.google.com''"
    "\<not> (''othergoogle.com'' = ''google.com'' \<or> True \<and> suffix (''.'' @ ''google.com'') ''othergoogle.com'')"
    by (simp_all add: suffix_to_prefix)
  moreover note trie_matches_iff [OF all h(2) insertI1, of id, unfolded at]
    trie_matches_iff [OF all h(3), of "''a.google.com.''" id, unfolded at]
  ultimately show ?thesis by simp
qed

text \<open>
  The textual wildcard forms: inserting \<^verbatim>\<open>*.d\<close> or \<^verbatim>\<open>.d\<close>, with the wildcard argument set or not,
  is inserting \<^verbatim>\<open>d\<close> as a wildcard; a name's case and final dot do not matter to \<^verbatim>\<open>Insert\<close>.
\<close>

theorem trie_wildcard_forms:
  assumes "host_name d"
  shows "Insert ul t (''*.'' @ d) w = Insert ul t d True \<and>
    Insert ul t (''.'' @ d) w = Insert ul t d True \<and>
    Insert ul t (d @ ''.'') w = Insert ul t d w"
  using normalize_wildcard_text [OF assms] normalize_host [OF assms] normalize_fqdn [OF assms]
    assms dotted_no_leading_dot [of d] dotted_nonempty [of d]
  by (simp add: Insert_def wildcard_form_def has_prefix_def host_name_def trim_prefix_def)

lemma trie_wildcard_forms_witness:
  "Insert id NewDomainTrie ''*.a.b'' False = Insert id NewDomainTrie ''a.b'' True"
proof -
  have h: "host_name ''a.b''"
    by (simp add: host_name_def dotted_def plain_byte_def byte_of_Char lower_byte_def is_upper_Char)
  show ?thesis using trie_wildcard_forms [OF h, of id NewDomainTrie False] by simp
qed

text \<open>
  The order in which rules are inserted is immaterial: two sequences with the same insertions
  build the same trie, node for node, and the same count; the count is the number of insertions
  that named at least one label, and \<^verbatim>\<open>HasRules\<close> holds exactly when there was one.
\<close>

theorem trie_order_irrelevant:
  assumes "mset rs = mset rs'"
  shows "fold (insert_rule ul) rs t = fold (insert_rule ul) rs' t \<and>
    count (fold (insert_rule ul) rs t) =
      count t + int (length (filter (\<lambda>x. rule_for ul x \<noteq> None) rs)) \<and>
    (HasRules (fold (insert_rule ul) rs NewDomainTrie) \<longleftrightarrow> (\<exists>x \<in> set rs. rule_for ul x \<noteq> None))"
  using trie.fold_perm [OF assms, of ul t] count_fold_insert [of ul rs t]
  by (intro conjI) (auto simp: count_fold_insert HasRules_def NewDomainTrie_def filter_empty_conv)

lemma trie_order_irrelevant_witness:
  "fold (insert_rule id) [(''a.b'', False), (''b'', True)] NewDomainTrie =
   fold (insert_rule id) [(''b'', True), (''a.b'', False)] NewDomainTrie"
  using trie_order_irrelevant [of "[(''a.b'', False), (''b'', True)]" "[(''b'', True), (''a.b'', False)]"
      id NewDomainTrie] by simp

end
