(* ===== verification/Go_Net.thy ===== *)
theory Go_Net
  imports Go_Prelude
begin

unbundle bit_operations_syntax

text \<open>
  The part of Go's package \<^verbatim>\<open>net\<close> that the program uses: \<^verbatim>\<open>net.IP\<close> and its classification,
  \<^verbatim>\<open>net.ParseIP\<close>, \<^verbatim>\<open>net.SplitHostPort\<close> and \<^verbatim>\<open>net.JoinHostPort\<close>, each following the
  standard library's own code.  A \<^verbatim>\<open>net.IP\<close> is its byte slice; nil is the empty list, which
  every predicate here treats as Go treats nil.
\<close>

type_synonym ip = "u8 list"

section \<open>Addresses\<close>

definition v4in6_prefix :: ip where
  "v4in6_prefix = [0, 0, 0, 0, 0, 0, 0, 0, 0, 0, 255, 255]"

definition IPv4zero :: ip where
  "IPv4zero = v4in6_prefix @ [0, 0, 0, 0]"

definition IPv6zero :: ip where
  "IPv6zero = replicate 16 0"

definition IPv6loopback :: ip where
  "IPv6loopback = replicate 15 0 @ [1]"

text \<open>\<^verbatim>\<open>IP.To4\<close>: the four bytes of an IPv4 address in either form; \<open>None\<close> is nil.\<close>

definition to4 :: "ip \<Rightarrow> ip option" where
  "to4 a =
     (if length a = 4 then Some a
      else if length a = 16 \<and> take 12 a = v4in6_prefix then Some (drop 12 a)
      else None)"

definition ip_equal :: "ip \<Rightarrow> ip \<Rightarrow> bool" where
  "ip_equal a b =
     (if length a = length b then a = b
      else if length a = 4 \<and> length b = 16 then take 12 b = v4in6_prefix \<and> a = drop 12 b
      else if length a = 16 \<and> length b = 4 then take 12 a = v4in6_prefix \<and> drop 12 a = b
      else False)"

definition IsUnspecified :: "ip \<Rightarrow> bool" where
  "IsUnspecified a \<longleftrightarrow> ip_equal a IPv4zero \<or> ip_equal a IPv6zero"

definition IsLoopback :: "ip \<Rightarrow> bool" where
  "IsLoopback a =
     (case to4 a of Some b \<Rightarrow> b ! 0 = 127 | None \<Rightarrow> ip_equal a IPv6loopback)"

definition IsPrivate :: "ip \<Rightarrow> bool" where
  "IsPrivate a =
     (case to4 a of
        Some b \<Rightarrow> b ! 0 = 10 \<or> (b ! 0 = 172 \<and> b ! 1 AND 0xF0 = 16) \<or> (b ! 0 = 192 \<and> b ! 1 = 168)
      | None \<Rightarrow> length a = 16 \<and> a ! 0 AND 0xFE = 0xFC)"

definition IsMulticast :: "ip \<Rightarrow> bool" where
  "IsMulticast a =
     (case to4 a of
        Some b \<Rightarrow> b ! 0 AND 0xF0 = 0xE0
      | None \<Rightarrow> length a = 16 \<and> a ! 0 = 0xFF)"

definition IsLinkLocalUnicast :: "ip \<Rightarrow> bool" where
  "IsLinkLocalUnicast a =
     (case to4 a of
        Some b \<Rightarrow> b ! 0 = 169 \<and> b ! 1 = 254
      | None \<Rightarrow> length a = 16 \<and> a ! 0 = 0xFE \<and> a ! 1 AND 0xC0 = 0x80)"

definition IsLinkLocalMulticast :: "ip \<Rightarrow> bool" where
  "IsLinkLocalMulticast a =
     (case to4 a of
        Some b \<Rightarrow> b ! 0 = 224 \<and> b ! 1 = 0 \<and> b ! 2 = 0
      | None \<Rightarrow> length a = 16 \<and> a ! 0 = 0xFF \<and> a ! 1 AND 0x0F = 0x02)"

text \<open>\<^verbatim>\<open>IPNet.Contains\<close> for a network given by a four-byte number and mask.\<close>

definition ipnet4_contains :: "ip \<Rightarrow> ip \<Rightarrow> ip \<Rightarrow> bool" where
  "ipnet4_contains nn m a =
     (let b = (case to4 a of Some x \<Rightarrow> x | None \<Rightarrow> a)
      in length b = length nn \<and> (\<forall>i < length nn. nn ! i AND m ! i = b ! i AND m ! i))"

section \<open>Parsing addresses\<close>

definition digit_val :: "char \<Rightarrow> nat option" where
  "digit_val c = (if 48 \<le> byte_of c \<and> byte_of c \<le> 57 then Some (byte_of c - 48) else None)"

definition hex_val :: "char \<Rightarrow> nat option" where
  "hex_val c =
     (if 48 \<le> byte_of c \<and> byte_of c \<le> 57 then Some (byte_of c - 48)
      else if 97 \<le> byte_of c \<and> byte_of c \<le> 102 then Some (byte_of c - 97 + 10)
      else if 65 \<le> byte_of c \<and> byte_of c \<le> 70 then Some (byte_of c - 65 + 10)
      else None)"

text \<open>
  \<^verbatim>\<open>netip.parseIPv4Fields\<close>; \<open>fs\<close> are the finished octets.  At the start of the input and behind a
  dot no digit of the octet has been read, which is how the code's test \<^verbatim>\<open>i == 0 || s[i-1] == '.'\<close>
  reads here.
\<close>

fun ipv4_fields :: "nat list \<Rightarrow> nat \<Rightarrow> nat \<Rightarrow> string \<Rightarrow> nat list option" where
  "ipv4_fields fs v digLen [] = (if length fs < 3 then None else Some (fs @ [v]))"
| "ipv4_fields fs v digLen (c # s) =
     (case digit_val c of
        Some n \<Rightarrow>
          if digLen = 1 \<and> v = 0 then None
          else if v * 10 + n > 255 then None
          else ipv4_fields fs (v * 10 + n) (digLen + 1) s
      | None \<Rightarrow>
          if c = CHR ''.'' then
            if digLen = 0 \<or> s = [] then None
            else if length fs = 3 then None
            else ipv4_fields (fs @ [v]) 0 0 s
          else None)"

definition parse_ipv4 :: "string \<Rightarrow> ip option" where
  "parse_ipv4 s = map_option (map of_nat) (ipv4_fields [] 0 0 s)"

fun scan_hex :: "nat \<Rightarrow> nat \<Rightarrow> string \<Rightarrow> (nat \<times> nat \<times> string) option" where
  "scan_hex off acc [] = Some (off, acc, [])"
| "scan_hex off acc (c # s) =
     (case hex_val c of
        None \<Rightarrow> Some (off, acc, c # s)
      | Some v \<Rightarrow>
          if off > 3 then None
          else if acc * 16 + v > 65535 then None
          else scan_hex (off + 1) (acc * 16 + v) s)"

text \<open>
  The loop of \<^verbatim>\<open>netip.parseIPv6\<close>: \<open>b\<close> are the bytes written, \<open>ell\<close> the position of the ellipsis.
  The result is the bytes, the ellipsis and the unread rest.
\<close>

function ipv6_groups ::
  "ip \<Rightarrow> nat option \<Rightarrow> string \<Rightarrow> (ip \<times> nat option \<times> string) option" where
  "ipv6_groups b ell s =
     (if length b \<ge> 16 then Some (b, ell, s)
      else
        (case scan_hex 0 0 s of
           None \<Rightarrow> None
         | Some (off, acc, s') \<Rightarrow>
             if off = 0 then None
             else if s' \<noteq> [] \<and> hd s' = CHR ''.'' then
               (if ell = None \<and> length b \<noteq> 12 then None
                else if length b + 4 > 16 then None
                else
                  (case parse_ipv4 s of
                     None \<Rightarrow> None
                   | Some q \<Rightarrow> Some (b @ q, ell, [])))
             else
               (let b' = b @ [of_nat (acc div 256), of_nat (acc mod 256)] in
                case s' of
                  [] \<Rightarrow> Some (b', ell, [])
                | c # s1 \<Rightarrow>
                    if c \<noteq> CHR '':'' then None
                    else
                      (case s1 of
                         [] \<Rightarrow> None
                       | c1 # s2 \<Rightarrow>
                           if c1 = CHR '':'' then
                             (if ell \<noteq> None then None
                              else if s2 = [] then Some (b', Some (length b'), [])
                              else ipv6_groups b' (Some (length b')) s2)
                           else ipv6_groups b' ell s1))))"
  by pat_completeness auto
termination
  by (relation "measure (\<lambda>(b, ell, s). 16 - length b)") auto

declare ipv6_groups.simps [simp del]

definition ipv6_finish :: "ip \<times> nat option \<times> string \<Rightarrow> ip option" where
  "ipv6_finish x =
     (case x of (b, ell, s) \<Rightarrow>
        if s \<noteq> [] then None
        else if length b < 16 then
          (case ell of
             None \<Rightarrow> None
           | Some e \<Rightarrow> Some (take e b @ replicate (16 - length b) 0 @ drop e b))
        else if ell \<noteq> None then None
        else Some b)"

definition parse_ipv6 :: "string \<Rightarrow> ip option" where
  "parse_ipv6 s =
     (if prefix ''::'' s then
        (if s = ''::'' then Some IPv6zero
         else Option.bind (ipv6_groups [] (Some 0) (drop 2 s)) ipv6_finish)
      else Option.bind (ipv6_groups [] None s) ipv6_finish)"

text \<open>
  \<^verbatim>\<open>net.ParseIP\<close>, which has no address for a string with a zone: any string with a percent sign
  either fails to parse or has one.
\<close>

definition ParseIP :: "string \<Rightarrow> ip option" where
  "ParseIP s =
     (if CHR ''%'' \<in> set s then None
      else
        (case find (\<lambda>c. c = CHR ''.'' \<or> c = CHR '':'') s of
           None \<Rightarrow> None
         | Some c \<Rightarrow>
             if c = CHR ''.'' then map_option (\<lambda>q. v4in6_prefix @ q) (parse_ipv4 s)
             else parse_ipv6 s))"

section \<open>Host and port\<close>

text \<open>\<^verbatim>\<open>net.SplitHostPort\<close>; \<open>None\<close> is any of its address errors.\<close>

definition SplitHostPort :: "string \<Rightarrow> (string \<times> string) option" where
  "SplitHostPort hp =
     (case last_index_byte hp CHR '':'' of
        None \<Rightarrow> None
      | Some i \<Rightarrow>
          if hp ! 0 = CHR ''['' then
            (case index_byte hp CHR '']'' of
               None \<Rightarrow> None
             | Some e \<Rightarrow>
                 if e + 1 \<noteq> i then None
                 else if CHR ''['' \<in> set (drop 1 hp) then None
                 else if CHR '']'' \<in> set (drop (e + 1) hp) then None
                 else Some (take (e - 1) (drop 1 hp), drop (i + 1) hp))
          else
            (let host = take i hp in
             if CHR '':'' \<in> set host then None
             else if CHR ''['' \<in> set hp then None
             else if CHR '']'' \<in> set hp then None
             else Some (host, drop (i + 1) hp)))"

definition JoinHostPort :: "string \<Rightarrow> string \<Rightarrow> string" where
  "JoinHostPort host port =
     (if CHR '':'' \<in> set host then ''['' @ host @ '']:'' @ port else host @ '':'' @ port)"

lemma last_index_byte_last:
  "c \<notin> set v \<Longrightarrow> last_index_byte (u @ c # v) c = Some (length u)"
  by (rule last_index_byte_append)

text \<open>Splitting undoes joining for a host and a port without brackets.\<close>

lemma Split_Join_HostPort:
  assumes "CHR ''['' \<notin> set host" "CHR '']'' \<notin> set host"
    "CHR ''['' \<notin> set port" "CHR '']'' \<notin> set port" "CHR '':'' \<notin> set port"
  shows "SplitHostPort (JoinHostPort host port) = Some (host, port)"
proof (cases "CHR '':'' \<in> set host")
  case True
  define hp where "hp = ''['' @ host @ '']:'' @ port"
  have hp1: "hp = (''['' @ host @ '']'') @ CHR '':'' # port"
    and hp2: "hp = (''['' @ host) @ CHR '']'' # ('':'' @ port)" by (simp_all add: hp_def)
  have "last_index_byte hp CHR '':'' = Some (length (''['' @ host @ '']''))"
    unfolding hp1 using assms(5) by (rule last_index_byte_append)
  moreover have "index_byte hp CHR '']'' = Some (length (''['' @ host))"
    unfolding hp2 using assms(2) by (intro index_byte_append) auto
  ultimately have "SplitHostPort hp = Some (host, port)"
    using assms by (auto simp: SplitHostPort_def hp_def)
  with True show ?thesis by (simp add: JoinHostPort_def hp_def)
next
  case False
  define hp where "hp = host @ CHR '':'' # port"
  have "last_index_byte hp CHR '':'' = Some (length host)"
    unfolding hp_def using assms(5) by (rule last_index_byte_append)
  moreover have "hp ! 0 \<noteq> CHR ''[''"
    using assms(1) by (cases host) (auto simp: hp_def)
  ultimately have "SplitHostPort hp = Some (host, port)"
    using assms False by (auto simp: SplitHostPort_def hp_def)
  with False show ?thesis by (simp add: JoinHostPort_def hp_def)
qed

end
