(* ===== verification/Config.thy ===== *)
theory Config
  imports Go_Net
begin

text \<open>
  \<^verbatim>\<open>internal/config/config.go\<close>: the configuration records, the defaults, loading and validation.
  A \<^verbatim>\<open>time.Duration\<close> is its number of nanoseconds, an \<open>int\<close>.  Reading the file and the YAML decoder
  are arguments of \<open>Load\<close>; the decoder receives the defaults, which it overwrites field by field.
\<close>

section \<open>Durations\<close>

type_synonym duration = int

definition Second :: duration where "Second = 1000000000"
definition Hour :: duration where "Hour = 3600 * Second"

section \<open>The records\<close>

record server_config =
  ListenAddrs :: "string list"
  ListenAddr :: string
  ReadTimeout :: duration
  WriteTimeout :: duration
  DNSSEC :: bool

record upstream_config =
  Servers :: "string list"
  BootstrapIPs :: "string list"
  BootstrapMap :: "string \<Rightarrow> string list option"
  Timeout :: duration
  Strategy :: string

record blocking_config =
  Enabled :: bool
  BlockMode :: string
  BlocklistURLs :: "string list"
  BlocklistFiles :: "string list"
  Blacklist :: "string list"
  RegexBlacklist :: "string list"
  Whitelist :: "string list"
  CNAMEUncloaking :: bool
  UpdateInterval :: duration
  CustomZeroIPv4 :: string
  CustomZeroIPv6 :: string
  TTL :: u32

record cache_config =
  CacheEnabled :: bool
  Size :: int
  MinTTL :: duration
  MaxTTL :: duration

record opsec_config =
  ZeroLog :: bool
  LogLevel :: string
  EDNS0Padding :: bool
  PaddingBlockSize :: int
  DNSRebindingProtection :: bool
  AllowedLocalDomains :: "string list"
  DNS0x20 :: bool
  RingBufferSize :: int

record config =
  Server :: server_config
  Upstream :: upstream_config
  Blocking :: blocking_config
  CacheCfg :: cache_config
  OpSec :: opsec_config

definition GetListenAddrs :: "server_config \<Rightarrow> string list" where
  "GetListenAddrs s =
     (if ListenAddrs s \<noteq> [] then ListenAddrs s
      else if ListenAddr s \<noteq> [] then [ListenAddr s]
      else [''127.0.0.1:53'', ''[::1]:53''])"

section \<open>Defaults\<close>

definition DefaultConfig :: config where
  "DefaultConfig =
     \<lparr>Server =
        \<lparr>ListenAddrs = [''127.0.0.1:53'', ''[::1]:53''], ListenAddr = [],
         ReadTimeout = 3 * Second, WriteTimeout = 3 * Second, DNSSEC = True\<rparr>,
      Upstream =
        \<lparr>Servers =
           [''https://dns.quad9.net/dns-query'', ''https://cloudflare-dns.com/dns-query'',
            ''https://dns.mullvad.net/dns-query''],
         BootstrapIPs =
           [''9.9.9.9'', ''149.112.112.112'', ''1.1.1.1'', ''1.0.0.1'', ''2620:fe::fe'',
            ''2606:4700:4700::1111''],
         BootstrapMap =
           [''dns.quad9.net'' \<mapsto>
              [''9.9.9.9'', ''149.112.112.112'', ''2620:fe::fe'', ''2620:fe::9''],
            ''cloudflare-dns.com'' \<mapsto>
              [''1.1.1.1'', ''1.0.0.1'', ''2606:4700:4700::1111'', ''2606:4700:4700::1001''],
            ''dns.mullvad.net'' \<mapsto>
              [''194.242.2.2'', ''194.242.2.3'', ''2a07:e340::2'', ''2a07:e340::3'']],
         Timeout = 4 * Second, Strategy = ''round_robin''\<rparr>,
      Blocking =
        \<lparr>Enabled = True, BlockMode = ''zero_ip'',
         BlocklistURLs =
           [''https://raw.githubusercontent.com/StevenBlack/hosts/master/hosts''],
         BlocklistFiles = [], Blacklist = [], RegexBlacklist = [], Whitelist = [],
         CNAMEUncloaking = True, UpdateInterval = 24 * Hour,
         CustomZeroIPv4 = ''0.0.0.0'', CustomZeroIPv6 = ''::'', TTL = 300\<rparr>,
      CacheCfg =
        \<lparr>CacheEnabled = True, Size = 10000, MinTTL = 60 * Second, MaxTTL = 86400 * Second\<rparr>,
      OpSec =
        \<lparr>ZeroLog = True, LogLevel = ''info'', EDNS0Padding = True, PaddingBlockSize = 128,
         DNSRebindingProtection = True,
         AllowedLocalDomains =
           [''*.local'', ''*.lan'', ''*.home.arpa'', ''localhost'', ''router.lan'',
            ''tplinkwifi.net'', ''fritz.box'', ''*.internal'', ''*.corp''],
         DNS0x20 = True, RingBufferSize = 1000\<rparr>\<rparr>"

section \<open>Validation and loading\<close>

datatype config_err =
    ErrNoListenAddrs
  | ErrListenAddr string
  | ErrNoServers
  | ErrBlockMode
  | ErrReadFile
  | ErrYaml
  | ErrInvalid config_err

text \<open>The loop over the listen addresses: the first one that is neither host:port nor a bare port.\<close>

fun bad_addr :: "string list \<Rightarrow> string option" where
  "bad_addr [] = None"
| "bad_addr (addr # addrs) =
     (case SplitHostPort addr of
        Some _ \<Rightarrow> bad_addr addrs
      | None \<Rightarrow> if \<not> has_prefix addr '':'' then Some addr else bad_addr addrs)"

text \<open>
  \<^verbatim>\<open>Validate\<close> changes the configuration it checks: the result is the error, or the configuration
  with the unset fields filled in, in the order of the code (lines 227 to 244).
\<close>

definition fill_blocking :: "blocking_config \<Rightarrow> blocking_config" where
  "fill_blocking b =
     (let b = (if CustomZeroIPv4 b = [] then b\<lparr>CustomZeroIPv4 := ''0.0.0.0''\<rparr> else b);
          b = (if CustomZeroIPv6 b = [] then b\<lparr>CustomZeroIPv6 := ''::''\<rparr> else b);
          b = (if TTL b = 0 then b\<lparr>TTL := 300\<rparr> else b)
      in b)"

definition fill_cache :: "cache_config \<Rightarrow> cache_config" where
  "fill_cache k = (if Size k \<le> 0 then k\<lparr>Size := 10000\<rparr> else k)"

definition fill_opsec :: "opsec_config \<Rightarrow> opsec_config" where
  "fill_opsec os =
     (let os = (if PaddingBlockSize os \<le> 0 then os\<lparr>PaddingBlockSize := 128\<rparr> else os);
          os = (if RingBufferSize os < 0 then os\<lparr>RingBufferSize := 1000\<rparr> else os)
      in os)"

definition Validate :: "config \<Rightarrow> config_err + config" where
  "Validate c =
     (let addrs = GetListenAddrs (Server c) in
      if addrs = [] then Inl ErrNoListenAddrs
      else
        (case bad_addr addrs of
           Some a \<Rightarrow> Inl (ErrListenAddr a)
         | None \<Rightarrow>
             if Servers (Upstream c) = [] then Inl ErrNoServers
             else if BlockMode (Blocking c) \<noteq> ''zero_ip'' \<and> BlockMode (Blocking c) \<noteq> ''nxdomain''
             then Inl ErrBlockMode
             else
               Inr (c\<lparr>Blocking := fill_blocking (Blocking c), CacheCfg := fill_cache (CacheCfg c),
                      OpSec := fill_opsec (OpSec c)\<rparr>)))"

definition Load ::
  "(string \<Rightarrow> string option) \<Rightarrow> (string \<Rightarrow> config \<Rightarrow> config option) \<Rightarrow> string \<Rightarrow> config_err + config"
where
  "Load readFile unmarshal path =
     (let cfg = DefaultConfig in
      if path = [] then Inr cfg
      else
        (case readFile path of
           None \<Rightarrow> Inl ErrReadFile
         | Some data \<Rightarrow>
             (case unmarshal data cfg of
                None \<Rightarrow> Inl ErrYaml
              | Some cfg \<Rightarrow>
                  (case Validate cfg of
                     Inl e \<Rightarrow> Inl (ErrInvalid e)
                   | Inr cfg \<Rightarrow> Inr cfg))))"

section \<open>What a validated configuration satisfies\<close>

text \<open>The facts about a loaded configuration that the rest of the program relies on.\<close>

definition addr_ok :: "string \<Rightarrow> bool" where
  "addr_ok a \<longleftrightarrow> SplitHostPort a \<noteq> None \<or> has_prefix a '':''"

definition config_ok :: "config \<Rightarrow> bool" where
  "config_ok c \<longleftrightarrow>
     GetListenAddrs (Server c) \<noteq> [] \<and> list_all addr_ok (GetListenAddrs (Server c)) \<and>
     Servers (Upstream c) \<noteq> [] \<and>
     (BlockMode (Blocking c) = ''zero_ip'' \<or> BlockMode (Blocking c) = ''nxdomain'') \<and>
     CustomZeroIPv4 (Blocking c) \<noteq> [] \<and> CustomZeroIPv6 (Blocking c) \<noteq> [] \<and>
     TTL (Blocking c) \<noteq> 0 \<and> 0 < Size (CacheCfg c) \<and>
     0 < PaddingBlockSize (OpSec c) \<and> 0 \<le> RingBufferSize (OpSec c)"

lemma bad_addr_None: "bad_addr addrs = None \<longleftrightarrow> list_all addr_ok addrs"
  by (induction addrs) (auto simp: addr_ok_def split: option.split)

lemma GetListenAddrs_nonempty [simp]: "GetListenAddrs s \<noteq> []"
  by (simp add: GetListenAddrs_def)

lemma fill_blocking_ok:
  "CustomZeroIPv4 (fill_blocking b) \<noteq> []" "CustomZeroIPv6 (fill_blocking b) \<noteq> []"
  "TTL (fill_blocking b) \<noteq> 0" "BlockMode (fill_blocking b) = BlockMode b"
  by (simp_all add: fill_blocking_def)

lemma fill_cache_ok: "0 < Size (fill_cache k)"
  by (simp add: fill_cache_def)

lemma fill_opsec_ok: "0 < PaddingBlockSize (fill_opsec os)" "0 \<le> RingBufferSize (fill_opsec os)"
  by (simp_all add: fill_opsec_def)

lemmas fill_ok = fill_blocking_ok fill_cache_ok fill_opsec_ok

lemma fill_blocking_id:
  "CustomZeroIPv4 b \<noteq> [] \<Longrightarrow> CustomZeroIPv6 b \<noteq> [] \<Longrightarrow> TTL b \<noteq> 0 \<Longrightarrow> fill_blocking b = b"
  by (simp add: fill_blocking_def)

lemma fill_cache_id: "0 < Size k \<Longrightarrow> fill_cache k = k"
  by (simp add: fill_cache_def)

lemma fill_opsec_id: "0 < PaddingBlockSize os \<Longrightarrow> 0 \<le> RingBufferSize os \<Longrightarrow> fill_opsec os = os"
  by (simp add: fill_opsec_def)

lemma Validate_Inr:
  "Validate c = Inr c' \<longleftrightarrow>
     list_all addr_ok (GetListenAddrs (Server c)) \<and> Servers (Upstream c) \<noteq> [] \<and>
     (BlockMode (Blocking c) = ''zero_ip'' \<or> BlockMode (Blocking c) = ''nxdomain'') \<and>
     c' = c\<lparr>Blocking := fill_blocking (Blocking c), CacheCfg := fill_cache (CacheCfg c),
            OpSec := fill_opsec (OpSec c)\<rparr>"
  unfolding bad_addr_None [symmetric]
  by (cases "bad_addr (GetListenAddrs (Server c))") (auto simp: Validate_def)

lemma fill_defaults:
  "fill_blocking b =
     b\<lparr>CustomZeroIPv4 := if CustomZeroIPv4 b = [] then ''0.0.0.0'' else CustomZeroIPv4 b,
       CustomZeroIPv6 := if CustomZeroIPv6 b = [] then ''::'' else CustomZeroIPv6 b,
       TTL := if TTL b = 0 then 300 else TTL b\<rparr>"
  "fill_cache k = k\<lparr>Size := if Size k \<le> 0 then 10000 else Size k\<rparr>"
  "fill_opsec os =
     os\<lparr>PaddingBlockSize := if PaddingBlockSize os \<le> 0 then 128 else PaddingBlockSize os,
        RingBufferSize := if RingBufferSize os < 0 then 1000 else RingBufferSize os\<rparr>"
  by (simp_all add: fill_blocking_def fill_cache_def fill_opsec_def)

lemma bad_addr_Some:
  "bad_addr addrs = Some a \<Longrightarrow> \<exists>xs ys. addrs = xs @ a # ys \<and> list_all addr_ok xs \<and> \<not> addr_ok a"
proof (induction addrs)
  case (Cons b addrs)
  have b: "bad_addr (b # addrs) = (if addr_ok b then bad_addr addrs else Some b)"
    by (auto simp: addr_ok_def split: option.split)
  show ?case
  proof (cases "addr_ok b")
    case True
    then obtain xs ys where "addrs = xs @ a # ys" "list_all addr_ok xs" "\<not> addr_ok a"
      using Cons b by auto
    then have "b # addrs = (b # xs) @ a # ys" "list_all addr_ok (b # xs)" "\<not> addr_ok a"
      using True by simp_all
    then show ?thesis by blast
  next
    case False
    then have "b # addrs = [] @ a # addrs" "list_all addr_ok []" "\<not> addr_ok a"
      using Cons.prems b by auto
    then show ?thesis by blast
  qed
qed simp

lemma Validate_Inl:
  assumes "Validate c = Inl e"
  shows "(\<exists>xs a ys. e = ErrListenAddr a \<and> GetListenAddrs (Server c) = xs @ a # ys \<and>
        list_all addr_ok xs \<and> \<not> addr_ok a) \<or>
     e = ErrNoServers \<and> list_all addr_ok (GetListenAddrs (Server c)) \<and> Servers (Upstream c) = [] \<or>
     e = ErrBlockMode \<and> list_all addr_ok (GetListenAddrs (Server c)) \<and> Servers (Upstream c) \<noteq> [] \<and>
       BlockMode (Blocking c) \<noteq> ''zero_ip'' \<and> BlockMode (Blocking c) \<noteq> ''nxdomain''"
proof (cases "bad_addr (GetListenAddrs (Server c))")
  case None
  then show ?thesis
    using assms by (auto simp: Validate_def bad_addr_None [symmetric] split: if_splits)
next
  case (Some a)
  then have "e = ErrListenAddr a" using assms by (simp add: Validate_def)
  then show ?thesis using bad_addr_Some [OF Some] by blast
qed

lemma Validate_config_ok: "Validate c = Inr c' \<Longrightarrow> config_ok c'"
  by (auto simp: Validate_Inr config_ok_def fill_ok)

lemma Validate_id: "config_ok c \<Longrightarrow> Validate c = Inr c"
  by (simp add: Validate_Inr config_ok_def fill_blocking_id fill_cache_id fill_opsec_id)

lemma DefaultConfig_ok: "config_ok DefaultConfig"
  by code_simp

section \<open>Properties\<close>

text \<open>
  C38. \<^verbatim>\<open>Validate\<close> accepts a configuration exactly when every listen address is host:port or a bare
  port, there is an upstream server and the block mode it was given is one of the two known ones.
  What it returns is the given configuration with every field that was set kept and only the unset
  ones replaced by their defaults; it is valid in every respect the other components use, and
  validating it again changes nothing.  A rejection names the first malformed listen address, or the
  missing upstream, or the unknown block mode, in this order.
\<close>

theorem validate_correct:
  "(case Validate c of
      Inr c' \<Rightarrow>
        list_all addr_ok (GetListenAddrs (Server c)) \<and> Servers (Upstream c) \<noteq> [] \<and>
        BlockMode (Blocking c) \<in> {''zero_ip'', ''nxdomain''} \<and>
        c' = c\<lparr>Blocking := (Blocking c)
                  \<lparr>CustomZeroIPv4 :=
                     if CustomZeroIPv4 (Blocking c) = [] then ''0.0.0.0'' else CustomZeroIPv4 (Blocking c),
                   CustomZeroIPv6 :=
                     if CustomZeroIPv6 (Blocking c) = [] then ''::'' else CustomZeroIPv6 (Blocking c),
                   TTL := if TTL (Blocking c) = 0 then 300 else TTL (Blocking c)\<rparr>,
               CacheCfg := (CacheCfg c)
                  \<lparr>Size := if Size (CacheCfg c) \<le> 0 then 10000 else Size (CacheCfg c)\<rparr>,
               OpSec := (OpSec c)
                  \<lparr>PaddingBlockSize :=
                     if PaddingBlockSize (OpSec c) \<le> 0 then 128 else PaddingBlockSize (OpSec c),
                   RingBufferSize :=
                     if RingBufferSize (OpSec c) < 0 then 1000 else RingBufferSize (OpSec c)\<rparr>\<rparr> \<and>
        config_ok c' \<and> Validate c' = Inr c'
    | Inl e \<Rightarrow>
        (\<exists>xs a ys. e = ErrListenAddr a \<and> GetListenAddrs (Server c) = xs @ a # ys \<and>
           list_all addr_ok xs \<and> \<not> addr_ok a) \<or>
        e = ErrNoServers \<and> list_all addr_ok (GetListenAddrs (Server c)) \<and> Servers (Upstream c) = [] \<or>
        e = ErrBlockMode \<and> list_all addr_ok (GetListenAddrs (Server c)) \<and> Servers (Upstream c) \<noteq> [] \<and>
          BlockMode (Blocking c) \<notin> {''zero_ip'', ''nxdomain''})"
proof (cases "Validate c")
  case (Inl e)
  then show ?thesis using Validate_Inl [OF Inl] by simp
next
  case (Inr c')
  then have "config_ok c'" by (rule Validate_config_ok)
  then show ?thesis using Inr by (simp add: Validate_id) (simp add: Validate_Inr fill_defaults)
qed

text \<open>
  Every configuration \<^verbatim>\<open>Load\<close> returns satisfies \<open>config_ok\<close>, whatever the file and the YAML
  decoder, including the defaults it returns unvalidated for an empty path.
\<close>

theorem load_config_ok:
  "case Load readFile unmarshal path of Inr c \<Rightarrow> config_ok c | Inl _ \<Rightarrow> path \<noteq> []"
  using DefaultConfig_ok
  by (auto simp: Load_def Let_def dest: Validate_config_ok split: option.splits sum.splits)

end
