(* ===== verification/Filter_Engine.thy ===== *)
theory Filter_Engine
  imports Domain_Trie Config
begin

text \<open>
  \<^verbatim>\<open>internal/filter/engine.go\<close>, lines 160 to 403: the filter engine and its rule snapshots.

  A Go map with empty struct values is a set of strings.  Regular expressions are Go's RE2 engine,
  which the program only calls: compiling and matching are arguments (\<open>ee_compile\<close>, \<open>ee_match\<close>),
  as are the file system and the HTTP client that the loader uses.  The engine's atomic snapshot
  pointer is an optional snapshot; the reload mutex makes \<^verbatim>\<open>LoadRules\<close> one step.  The goroutines that
  fetch the remote lists, one for each entry of \<open>BlocklistURLs\<close>, each add their domains while holding one
  mutex, so a run of them is the order in which they got the mutex.  The argument \<open>sched\<close> is the
  scheduler that picks this order: any permutation of the configured URLs.
\<close>

section \<open>Data\<close>

record 're filter_snapshot =
  blacklistExact :: "string set"
  blacklistTrie :: domain_trie
  regexBlacklist :: "'re list"
  whitelistExact :: "string set"
  whitelistTrie :: domain_trie
  totalRules :: int

record 're engine =
  eng_cfg :: blocking_config
  eng_snapshot :: "'re filter_snapshot option"

record 're engine_env =
  ee_lower :: "string \<Rightarrow> string"
  ee_compile :: "string \<Rightarrow> 're option"
  ee_match :: "'re \<Rightarrow> string \<Rightarrow> bool"
  ee_open :: "string \<Rightarrow> reader option"
  ee_http :: "string \<Rightarrow> http_result"

definition empty_snapshot :: "'re filter_snapshot" where
  "empty_snapshot =
     \<lparr>blacklistExact = {}, blacklistTrie = NewDomainTrie, regexBlacklist = [],
      whitelistExact = {}, whitelistTrie = NewDomainTrie, totalRules = 0\<rparr>"

definition NewEngine :: "blocking_config \<Rightarrow> 're engine" where
  "NewEngine cfg = \<lparr>eng_cfg = cfg, eng_snapshot = Some empty_snapshot\<rparr>"

section \<open>Loading\<close>

type_synonym interner = "string \<Rightarrow> string option"

definition intern :: "interner \<Rightarrow> string \<Rightarrow> string \<times> interner" where
  "intern im s = (case im s of Some existing \<Rightarrow> (existing, im) | None \<Rightarrow> (s, im(s \<mapsto> s)))"

type_synonym 're load_state = "'re filter_snapshot \<times> interner"

definition wild_text :: "string \<Rightarrow> bool" where
  "wild_text d \<longleftrightarrow> has_prefix d ''*.'' \<or> has_prefix d ''.''"

fun add_black :: "(string \<Rightarrow> string) \<Rightarrow> string \<Rightarrow> 're load_state \<Rightarrow> 're load_state" where
  "add_black ul d (snap, im) =
     (if wild_text d then (snap\<lparr>blacklistTrie := Insert ul (blacklistTrie snap) d True\<rparr>, im)
      else
        (let (x, im') = intern im d
         in (snap\<lparr>blacklistExact := insert x (blacklistExact snap)\<rparr>, im')))"

fun add_white :: "(string \<Rightarrow> string) \<Rightarrow> string \<Rightarrow> 're load_state \<Rightarrow> 're load_state" where
  "add_white ul d (snap, im) =
     (if wild_text d then (snap\<lparr>whitelistTrie := Insert ul (whitelistTrie snap) d True\<rparr>, im)
      else
        (let (x, im') = intern im d
         in (snap\<lparr>whitelistExact := insert x (whitelistExact snap)\<rparr>, im')))"

definition load_white_entry ::
  "(string \<Rightarrow> string) \<Rightarrow> string \<Rightarrow> 're load_state \<Rightarrow> 're load_state" where
  "load_white_entry ul raw st =
     (let clean = normalizeDomain ul raw in if clean = [] then st else add_white ul clean st)"

definition load_black_entry ::
  "(string \<Rightarrow> string) \<Rightarrow> string \<Rightarrow> 're load_state \<Rightarrow> 're load_state" where
  "load_black_entry ul raw st =
     (let clean = normalizeDomain ul raw in if clean = [] then st else add_black ul clean st)"

fun load_regex ::
  "(string \<Rightarrow> 're option) \<Rightarrow> string \<Rightarrow> 're load_state \<Rightarrow> 're load_state" where
  "load_regex compile pattern (snap, im) =
     (let p = trim_space pattern in
      if p = [] then (snap, im)
      else
        (case compile p of
           None \<Rightarrow> (snap, im)
         | Some re \<Rightarrow> (snap\<lparr>regexBlacklist := regexBlacklist snap @ [re]\<rparr>, im)))"

text \<open>Steps 4 and 5 of the loader: a source whose loading failed is skipped as a whole.\<close>

definition load_source ::
  "(string \<Rightarrow> string) \<Rightarrow> string list \<times> load_err option \<Rightarrow> 're load_state \<Rightarrow> 're load_state" where
  "load_source ul res st =
     (let (domains, err) = res in if err \<noteq> None then st else fold (add_black ul) domains st)"

text \<open>
  Step 5: the goroutines started for the URLs \<open>urls\<close>, in the order in which they get the mutex.  A
  scheduler can only reorder them: an answer that is no permutation of \<open>urls\<close> is replaced by \<open>urls\<close>.
\<close>

type_synonym scheduler = "string list \<Rightarrow> string list"

definition fetch_order :: "scheduler \<Rightarrow> string list \<Rightarrow> string list" where
  "fetch_order sched urls = (if mset (sched urls) = mset urls then sched urls else urls)"

definition LoadRules ::
  "'re engine_env \<Rightarrow> scheduler \<Rightarrow> 're engine \<Rightarrow> 're engine" where
  "LoadRules env sched e =
     (let cfg = eng_cfg e; ul = ee_lower env in
      if \<not> Enabled cfg then e
      else
        (let st = (empty_snapshot, Map.empty);
             st = fold (load_white_entry ul) (Whitelist cfg) st;
             st = fold (load_black_entry ul) (Blacklist cfg) st;
             st = fold (load_regex (ee_compile env)) (RegexBlacklist cfg) st;
             st = fold (\<lambda>path. load_source ul (LoadFile ul (ee_open env) path)) (BlocklistFiles cfg) st;
             st = fold (\<lambda>url. load_source ul (FetchURL ul (ee_http env) url))
               (fetch_order sched (BlocklistURLs cfg)) st;
             newSnap = fst st;
             newSnap = newSnap\<lparr>totalRules :=
               int (card (blacklistExact newSnap)) + count (blacklistTrie newSnap) +
               int (length (regexBlacklist newSnap))\<rparr>
         in e\<lparr>eng_snapshot := Some newSnap\<rparr>))"

section \<open>Deciding\<close>

definition IsBlocked :: "'re engine_env \<Rightarrow> 're engine \<Rightarrow> string \<Rightarrow> bool" where
  "IsBlocked env e domain =
     (if \<not> Enabled (eng_cfg e) then False
      else
        (case eng_snapshot e of
           None \<Rightarrow> False
         | Some snap \<Rightarrow>
             (let ul = ee_lower env; d = normalizeDomain ul domain in
              if d = [] then False
              else if d \<in> whitelistExact snap then False
              else if HasRules (whitelistTrie snap) \<and> Matches ul (whitelistTrie snap) d then False
              else if d \<in> blacklistExact snap then True
              else if HasRules (blacklistTrie snap) \<and> Matches ul (blacklistTrie snap) d then True
              else if list_ex (\<lambda>re. ee_match env re d) (regexBlacklist snap) then True
              else False)))"

definition TotalRules :: "'re engine \<Rightarrow> int" where
  "TotalRules e = (case eng_snapshot e of None \<Rightarrow> 0 | Some snap \<Rightarrow> totalRules snap)"

section \<open>A domain list as one store\<close>

text \<open>
  The exact set and the trie of one colour, filled from one list of texts: each text goes to the
  trie if it is written as a wildcard, else to the set.  This pair is the store a list is loaded
  into, and it satisfies the contract of \<open>commuting_store\<close>.
\<close>

type_synonym domain_store = "string set \<times> domain_trie"

fun add_text :: "(string \<Rightarrow> string) \<Rightarrow> string \<Rightarrow> domain_store \<Rightarrow> domain_store" where
  "add_text ul d (ex, tr) =
     (if wild_text d then (ex, Insert ul tr d True) else (insert d ex, tr))"

fun store_has :: "(string \<Rightarrow> string) \<Rightarrow> domain_store \<Rightarrow> string \<Rightarrow> bool" where
  "store_has ul (ex, tr) q \<longleftrightarrow> q \<in> ex \<or> HasRules tr \<and> Matches ul tr q"

definition text_covers :: "(string \<Rightarrow> string) \<Rightarrow> string \<Rightarrow> string \<Rightarrow> bool" where
  "text_covers ul d q = (if wild_text d then rule_covers ul (d, True) q else q = d)"

definition store_wf :: "domain_store \<Rightarrow> bool" where
  "store_wf s \<longleftrightarrow> finite (fst s) \<and> trie_wf (snd s)"

lemma add_text_insert_rule:
  "wild_text d \<Longrightarrow> add_text ul d (ex, tr) = (ex, insert_rule ul (d, True) tr)"
  by (simp add: insert_rule_def)

interpretation texts: commuting_store
  "({}, NewDomainTrie)" "add_text ul" "store_has ul" "text_covers ul" store_wf for ul
proof unfold_locales
  show "store_wf ({}, NewDomainTrie)" by (simp add: store_wf_def)
  show "store_wf (add_text ul d s)" if "store_wf s" for d s
    using that by (cases s) (auto simp: store_wf_def trie_wf_Insert)
  show "\<not> store_has ul ({}, NewDomainTrie) q" for q
    by (simp add: HasRules_def NewDomainTrie_def)
  show "store_has ul (add_text ul d s) q \<longleftrightarrow> text_covers ul d q \<or> store_has ul s q"
    if "store_wf s" for d s q
  proof (cases s)
    case (Pair ex tr)
    with that have wf: "trie_wf tr" by (simp add: store_wf_def)
    then have "Matches ul (Insert ul tr d True) q \<longleftrightarrow> rule_covers ul (d, True) q \<or> Matches ul tr q"
      using trie.mem_ins [OF wf, of ul "(d, True)" q] by (simp add: insert_rule_def)
    then show ?thesis
      by (auto simp: Pair text_covers_def dest: Matches_HasRules [OF wf]
          Matches_HasRules [OF trie_wf_Insert [OF wf]])
  qed
  show "add_text ul d (add_text ul d' s) = add_text ul d' (add_text ul d s)" for d d' s
    using insert_rule_commute [of ul "(d, True)" "(d', True)" "snd s"]
    by (cases s) (auto simp: insert_rule_def)
qed

section \<open>What loading computes\<close>

definition black_store :: "'re filter_snapshot \<Rightarrow> domain_store" where
  "black_store snap = (blacklistExact snap, blacklistTrie snap)"

definition white_store :: "'re filter_snapshot \<Rightarrow> domain_store" where
  "white_store snap = (whitelistExact snap, whitelistTrie snap)"

text \<open>The texts each configured source contributes.\<close>

definition entry_texts :: "(string \<Rightarrow> string) \<Rightarrow> string list \<Rightarrow> string list" where
  "entry_texts ul raws = filter (\<lambda>d. d \<noteq> []) (map (normalizeDomain ul) raws)"

definition source_texts :: "string list \<times> load_err option \<Rightarrow> string list" where
  "source_texts res = (if snd res = None then fst res else [])"

definition white_texts :: "'re engine_env \<Rightarrow> blocking_config \<Rightarrow> string list" where
  "white_texts env cfg = entry_texts (ee_lower env) (Whitelist cfg)"

definition black_texts :: "'re engine_env \<Rightarrow> blocking_config \<Rightarrow> string list" where
  "black_texts env cfg =
     entry_texts (ee_lower env) (Blacklist cfg) @
     concat (map (\<lambda>p. source_texts (LoadFile (ee_lower env) (ee_open env) p)) (BlocklistFiles cfg)) @
     concat (map (\<lambda>u. source_texts (FetchURL (ee_lower env) (ee_http env) u)) (BlocklistURLs cfg))"

definition patterns :: "'re engine_env \<Rightarrow> blocking_config \<Rightarrow> 're list" where
  "patterns env cfg =
     List.map_filter (\<lambda>p. if trim_space p = [] then None else ee_compile env (trim_space p))
       (RegexBlacklist cfg)"

text \<open>The interner only shares storage: it never changes a string.\<close>

definition interner_ok :: "interner \<Rightarrow> bool" where
  "interner_ok im \<longleftrightarrow> (\<forall>s x. im s = Some x \<longrightarrow> x = s)"

lemma intern_id:
  assumes "interner_ok im"
  shows "fst (intern im s) = s" and "interner_ok (snd (intern im s))"
  using assms by (auto simp: intern_def interner_ok_def split: option.split)

definition loads ::
  "'re load_state \<Rightarrow> domain_store \<Rightarrow> domain_store \<Rightarrow> 're list \<Rightarrow> bool" where
  "loads st w b ps \<longleftrightarrow>
     white_store (fst st) = w \<and> black_store (fst st) = b \<and> regexBlacklist (fst st) = ps \<and>
     totalRules (fst st) = 0 \<and> interner_ok (snd st)"

lemma loads_empty: "loads (empty_snapshot, Map.empty) ({}, NewDomainTrie) ({}, NewDomainTrie) []"
  by (simp add: loads_def empty_snapshot_def white_store_def black_store_def interner_ok_def)

lemma loads_add_white: "loads st w b ps \<Longrightarrow> loads (add_white ul d st) (add_text ul d w) b ps"
  using intern_id [of "snd st" d]
  by (cases st) (auto simp: loads_def white_store_def black_store_def split: prod.split)

lemma loads_add_black: "loads st w b ps \<Longrightarrow> loads (add_black ul d st) w (add_text ul d b) ps"
  using intern_id [of "snd st" d]
  by (cases st) (auto simp: loads_def white_store_def black_store_def split: prod.split)

lemma loads_white_entries:
  "loads st w b ps \<Longrightarrow>
     loads (fold (load_white_entry ul) raws st) (fold (add_text ul) (entry_texts ul raws) w) b ps"
  by (induction raws arbitrary: st w)
     (simp_all add: entry_texts_def load_white_entry_def loads_add_white Let_def)

lemma loads_black_entries:
  "loads st w b ps \<Longrightarrow>
     loads (fold (load_black_entry ul) raws st) w (fold (add_text ul) (entry_texts ul raws) b) ps"
  by (induction raws arbitrary: st b)
     (simp_all add: entry_texts_def load_black_entry_def loads_add_black Let_def)

lemma loads_black_texts:
  "loads st w b ps \<Longrightarrow> loads (fold (add_black ul) ds st) w (fold (add_text ul) ds b) ps"
  by (induction ds arbitrary: st b) (simp_all add: loads_add_black)

lemma loads_sources:
  "loads st w b ps \<Longrightarrow>
     loads (fold (\<lambda>x. load_source ul (f x)) xs st) w
       (fold (add_text ul) (concat (map (\<lambda>x. source_texts (f x)) xs)) b) ps"
proof (induction xs arbitrary: st b)
  case (Cons x xs)
  have "loads (load_source ul (f x) st) w (fold (add_text ul) (source_texts (f x)) b) ps"
    using Cons.prems loads_black_texts [OF Cons.prems]
    by (auto simp: load_source_def source_texts_def split_beta)
  from Cons.IH [OF this] show ?case by simp
qed simp

lemma loads_regexes:
  "loads st w b ps \<Longrightarrow>
     loads (fold (load_regex compile) pats st) w b
       (ps @ List.map_filter
          (\<lambda>p. if trim_space p = [] then None else compile (trim_space p)) pats)"
proof (induction pats arbitrary: st ps)
  case Nil
  then show ?case by simp
next
  case (Cons p pats)
  obtain snap im where st: "st = (snap, im)" by (cases st)
  show ?case
  proof (cases "trim_space p = [] \<or> compile (trim_space p) = None")
    case True
    with Cons st show ?thesis by (auto simp: Let_def)
  next
    case False
    then obtain re where re: "compile (trim_space p) = Some re" "trim_space p \<noteq> []" by auto
    with Cons.prems st have "loads (load_regex compile p st) w b (ps @ [re])"
      by (simp add: loads_def white_store_def black_store_def)
    from Cons.IH [OF this] re show ?thesis by simp
  qed
qed

lemma mset_fetch_order [simp]: "mset (fetch_order sched urls) = mset urls"
  by (simp add: fetch_order_def)

lemma mset_concat_map: "mset xs = mset ys \<Longrightarrow> mset (concat (map f xs)) = mset (concat (map f ys))"
  by (metis mset_concat mset_map sum_mset_sum_list)

lemma LoadRules_snapshot:
  assumes "Enabled (eng_cfg e)"
  obtains snap where "LoadRules env sched e = e\<lparr>eng_snapshot := Some snap\<rparr>"
    and "white_store snap =
      fold (add_text (ee_lower env)) (white_texts env (eng_cfg e)) ({}, NewDomainTrie)"
    and "black_store snap =
      fold (add_text (ee_lower env)) (black_texts env (eng_cfg e)) ({}, NewDomainTrie)"
    and "regexBlacklist snap = patterns env (eng_cfg e)"
    and "totalRules snap =
      int (card (blacklistExact snap)) + count (blacklistTrie snap) + int (length (regexBlacklist snap))"
proof -
  let ?ul = "ee_lower env" and ?cfg = "eng_cfg e" and ?f = "\<lambda>u. source_texts (FetchURL (ee_lower env) (ee_http env) u)"
  let ?urls = "fetch_order sched (BlocklistURLs ?cfg)"
  define st where "st = fold (\<lambda>url. load_source ?ul (FetchURL ?ul (ee_http env) url)) ?urls
    (fold (\<lambda>path. load_source ?ul (LoadFile ?ul (ee_open env) path)) (BlocklistFiles ?cfg)
      (fold (load_regex (ee_compile env)) (RegexBlacklist ?cfg)
        (fold (load_black_entry ?ul) (Blacklist ?cfg)
          (fold (load_white_entry ?ul) (Whitelist ?cfg) (empty_snapshot, Map.empty)))))"
  have L: "loads st
      (fold (add_text ?ul) (entry_texts ?ul (Whitelist ?cfg)) ({}, NewDomainTrie))
      (fold (add_text ?ul) (concat (map ?f ?urls))
        (fold (add_text ?ul)
          (concat (map (\<lambda>p. source_texts (LoadFile ?ul (ee_open env) p)) (BlocklistFiles ?cfg)))
          (fold (add_text ?ul) (entry_texts ?ul (Blacklist ?cfg)) ({}, NewDomainTrie))))
      ([] @ patterns env ?cfg)"
    unfolding st_def patterns_def
    by (rule loads_sources loads_regexes loads_black_entries loads_white_entries loads_empty)+
  have order: "fold (add_text ?ul) (concat (map ?f ?urls)) s =
      fold (add_text ?ul) (concat (map ?f (BlocklistURLs ?cfg))) s" for s
    by (intro texts.fold_perm mset_concat_map mset_fetch_order)
  let ?snap = "(fst st)\<lparr>totalRules := int (card (blacklistExact (fst st))) +
    count (blacklistTrie (fst st)) + int (length (regexBlacklist (fst st)))\<rparr>"
  have "LoadRules env sched e = e\<lparr>eng_snapshot := Some ?snap\<rparr>"
    using assms by (simp add: LoadRules_def Let_def st_def)
  moreover have "white_store ?snap = white_store (fst st)" "black_store ?snap = black_store (fst st)"
    by (simp_all add: white_store_def black_store_def)
  ultimately show thesis
    using that [of ?snap] L [unfolded order]
    by (simp add: loads_def white_texts_def black_texts_def)
qed

lemma LoadRules_sched: "LoadRules env sched e = LoadRules env sched' e"
proof (cases "Enabled (eng_cfg e)")
  case False
  then show ?thesis by (simp add: LoadRules_def)
next
  case True
  note snap = LoadRules_snapshot [OF True, of env]
  show ?thesis
  proof (rule snap [of sched], rule snap [of sched'])
    fix s s' assume s: "LoadRules env sched e = e\<lparr>eng_snapshot := Some s\<rparr>"
      "white_store s = fold (add_text (ee_lower env)) (white_texts env (eng_cfg e)) ({}, NewDomainTrie)"
      "black_store s = fold (add_text (ee_lower env)) (black_texts env (eng_cfg e)) ({}, NewDomainTrie)"
      "regexBlacklist s = patterns env (eng_cfg e)"
      "totalRules s = int (card (blacklistExact s)) + count (blacklistTrie s) + int (length (regexBlacklist s))"
    assume s': "LoadRules env sched' e = e\<lparr>eng_snapshot := Some s'\<rparr>"
      "white_store s' = fold (add_text (ee_lower env)) (white_texts env (eng_cfg e)) ({}, NewDomainTrie)"
      "black_store s' = fold (add_text (ee_lower env)) (black_texts env (eng_cfg e)) ({}, NewDomainTrie)"
      "regexBlacklist s' = patterns env (eng_cfg e)"
      "totalRules s' = int (card (blacklistExact s')) + count (blacklistTrie s') + int (length (regexBlacklist s'))"
    have st: "black_store s = black_store s'" "white_store s = white_store s'"
      by (simp_all only: s(2,3) s'(2,3))
    then have "totalRules s = totalRules s'" by (simp add: s(4,5) s'(4,5) black_store_def)
    with st have "s = s'"
      by (intro filter_snapshot.equality) (simp_all add: s(4) s'(4) black_store_def white_store_def)
    with s(1) s'(1) show ?thesis by simp
  qed
qed

section \<open>The decision, against its specification\<close>

text \<open>
  The policy in terms of the configuration: a name is blocked if filtering is on, no whitelist text
  covers it, and a blacklist text covers it or a blacklist pattern matches it.
\<close>

definition blocked_spec ::
  "'re engine_env \<Rightarrow> blocking_config \<Rightarrow> string \<Rightarrow> bool" where
  "blocked_spec env cfg domain \<longleftrightarrow>
     (let d = normalizeDomain (ee_lower env) domain in
      Enabled cfg \<and> d \<noteq> [] \<and>
      \<not> (\<exists>w \<in> set (white_texts env cfg). text_covers (ee_lower env) w d) \<and>
      ((\<exists>b \<in> set (black_texts env cfg). text_covers (ee_lower env) b d) \<or>
       (\<exists>re \<in> set (patterns env cfg). ee_match env re d)))"

lemma IsBlocked_stores:
  assumes "eng_snapshot e = Some snap"
  shows "IsBlocked env e domain \<longleftrightarrow>
    (let d = normalizeDomain (ee_lower env) domain in
     Enabled (eng_cfg e) \<and> d \<noteq> [] \<and> \<not> store_has (ee_lower env) (white_store snap) d \<and>
     (store_has (ee_lower env) (black_store snap) d \<or>
      (\<exists>re \<in> set (regexBlacklist snap). ee_match env re d)))"
  using assms
  by (auto simp: IsBlocked_def white_store_def black_store_def Let_def list_ex_iff)

lemma LoadRules_cfg [simp]: "eng_cfg (LoadRules env sched e) = eng_cfg e"
  by (simp add: LoadRules_def Let_def)

lemma IsBlocked_disabled: "\<not> Enabled (eng_cfg e) \<Longrightarrow> \<not> IsBlocked env e domain"
  by (simp add: IsBlocked_def)

lemma IsBlocked_LoadRules:
  "IsBlocked env (LoadRules env sched e) domain \<longleftrightarrow> blocked_spec env (eng_cfg e) domain"
proof (cases "Enabled (eng_cfg e)")
  case False
  then show ?thesis by (simp add: IsBlocked_disabled blocked_spec_def Let_def)
next
  case True
  obtain snap where e: "LoadRules env sched e = e\<lparr>eng_snapshot := Some snap\<rparr>"
    and w: "white_store snap =
      fold (add_text (ee_lower env)) (white_texts env (eng_cfg e)) ({}, NewDomainTrie)"
    and b: "black_store snap =
      fold (add_text (ee_lower env)) (black_texts env (eng_cfg e)) ({}, NewDomainTrie)"
    and r: "regexBlacklist snap = patterns env (eng_cfg e)"
    by (rule LoadRules_snapshot [OF True])
  show ?thesis
    using True
    by (simp add: e IsBlocked_stores [of _ snap] blocked_spec_def w b r texts.mem_fold_empty)
qed

text \<open>Coverage of canonical names, as a relation on strings.\<close>

lemma text_covers_host:
  assumes "host_name d" "host_name q"
  shows "text_covers ul d q \<longleftrightarrow> q = d"
    and "text_covers ul (''*.'' @ d) q \<longleftrightarrow> q = d \<or> suffix (''.'' @ d) q"
proof -
  have "\<not> wild_text d"
    using assms(1) dotted_no_leading_dot by (auto simp: wild_text_def has_prefix_def host_name_def)
  then show "text_covers ul d q \<longleftrightarrow> q = d" by (simp add: text_covers_def)
  have "rule_for ul (''*.'' @ d, True) = Some (labels d, True)"
    using assms(1) normalize_wildcard_text [OF assms(1), of ul]
    by (simp add: rule_for_def wildcard_form_def has_prefix_def host_name_labels trim_prefix_def)
  then show "text_covers ul (''*.'' @ d) q \<longleftrightarrow> q = d \<or> suffix (''.'' @ d) q"
    using assms covers_dotted [of d q True] dotted_nonempty [of q]
    by (auto simp: text_covers_def wild_text_def has_prefix_def rule_covers_def normalize_host
        host_name_def simp del: covers.simps)
qed

lemma entry_texts_host:
  assumes "host_name d"
  shows "d \<in> set raws \<Longrightarrow> d \<in> set (entry_texts ul raws)"
    and "''*.'' @ d \<in> set raws \<Longrightarrow> ''*.'' @ d \<in> set (entry_texts ul raws)"
proof -
  show "d \<in> set (entry_texts ul raws)" if "d \<in> set raws"
    using that normalize_host [OF assms, of ul] dotted_nonempty [of d] assms
    by (force simp: entry_texts_def host_name_def)
  show "''*.'' @ d \<in> set (entry_texts ul raws)" if "''*.'' @ d \<in> set raws"
  proof -
    from that have "normalizeDomain ul (''*.'' @ d) \<in> normalizeDomain ul ` set raws" by (rule imageI)
    then show ?thesis by (simp add: entry_texts_def normalize_wildcard_text [OF assms, simplified])
  qed
qed

text \<open>The queries that a list entry \<open>raw\<close> names: itself, or everything at and below a wildcard.\<close>

definition entry_names :: "string \<Rightarrow> string \<Rightarrow> bool" where
  "entry_names raw q \<longleftrightarrow>
     host_name q \<and>
     (raw = q \<or> (\<exists>d. host_name d \<and> raw = ''*.'' @ d \<and> (q = d \<or> suffix (''.'' @ d) q)))"

lemma entry_names_covers:
  assumes "entry_names raw q" "raw \<in> set raws"
  shows "\<exists>w \<in> set (entry_texts ul raws). text_covers ul w q"
proof (cases "raw = q")
  case True
  with assms show ?thesis
    by (intro bexI [of _ q]) (auto simp: entry_names_def text_covers_host entry_texts_host)
next
  case False
  with assms(1) obtain d where d: "host_name d" "raw = ''*.'' @ d" "q = d \<or> suffix (''.'' @ d) q"
    and q: "host_name q" by (auto simp: entry_names_def)
  from d q have "text_covers ul (''*.'' @ d) q" by (simp only: text_covers_host)
  moreover from d assms(2) have "''*.'' @ d \<in> set (entry_texts ul raws)"
    by (intro entry_texts_host) simp_all
  ultimately show ?thesis by blast
qed

lemma normalize_query: "host_name q \<Longrightarrow> x \<in> {q, q @ ''.''} \<Longrightarrow> normalizeDomain ul x = q"
  by (auto simp: normalize_host normalize_fqdn)

lemma blocked_by_entry:
  assumes "raw \<in> set (Blacklist (eng_cfg e))" "entry_names raw q" "x \<in> {q, q @ ''.''}"
    and "Enabled (eng_cfg e)"
    and "\<forall>w \<in> set (white_texts env (eng_cfg e)). \<not> text_covers (ee_lower env) w q"
  shows "IsBlocked env (LoadRules env sched e) x"
proof -
  have h: "host_name q" using assms(2) by (simp add: entry_names_def)
  then have "q \<noteq> []" by (simp add: host_name_def dotted_nonempty)
  with h show ?thesis
    using entry_names_covers [OF assms(2,1), of "ee_lower env"] assms(3-5)
    by (auto simp: IsBlocked_LoadRules blocked_spec_def black_texts_def normalize_query)
qed

lemma map_filter_mono:
  "set xs \<subseteq> set ys \<Longrightarrow> set (List.map_filter f xs) \<subseteq> set (List.map_filter f ys)"
  unfolding subset_iff in_set_map_filter by blast

lemma fold_add_text:
  "fst (fold (add_text ul) ds s) = fst s \<union> {d \<in> set ds. \<not> wild_text d} \<and>
   count (snd (fold (add_text ul) ds s)) =
     count (snd s) +
     int (length (filter (\<lambda>d. wild_text d \<and> rule_for ul (d, True) \<noteq> None) ds))"
proof (induction ds arbitrary: s)
  case (Cons d ds)
  obtain ex tr where s: "s = (ex, tr)" by (cases s)
  have "count (Insert ul tr d True) =
      count tr + (if rule_for ul (d, True) \<noteq> None then 1 else 0)"
    by (auto simp: Insert_rule_for split: option.split prod.split)
  with Cons.IH [of "add_text ul d s"] s show ?case by auto
qed simp

definition example_cfg :: blocking_config where
  "example_cfg = (Blocking DefaultConfig)
     \<lparr>Blacklist := [''*.evil.com''], Whitelist := [''good.evil.com''], BlocklistURLs := []\<rparr>"

definition example_env :: "unit engine_env" where
  "example_env =
     \<lparr>ee_lower = id, ee_compile = (\<lambda>_. None), ee_match = (\<lambda>_ _. False), ee_open = (\<lambda>_. None),
      ee_http = (\<lambda>_. HttpDoError)\<rparr>"

lemma host_name_examples:
  "host_name ''good.evil.com''" "host_name ''bad.evil.com''" "host_name ''evil.com''"
  by (simp_all add: host_name_def dotted_def plain_byte_def byte_of_Char lower_byte_def is_upper_Char)

lemma NewEngine_cfg [simp]: "eng_cfg (NewEngine cfg) = cfg"
  by (simp add: NewEngine_def)

lemma example_white:
  "\<forall>w \<in> set (white_texts example_env example_cfg).
     \<not> text_covers (ee_lower example_env) w ''bad.evil.com''"
proof -
  have "white_texts example_env example_cfg = [''good.evil.com'']"
    using normalize_host [OF host_name_examples(1), of id]
    by (simp add: white_texts_def entry_texts_def example_env_def example_cfg_def)
  then show ?thesis
    using text_covers_host(1) [OF host_name_examples(1,2)] by simp
qed

lemma example_entry: "entry_names ''*.evil.com'' ''bad.evil.com''"
  using host_name_examples by (auto simp: entry_names_def suffix_def)

lemma example_blocked:
  "IsBlocked example_env (LoadRules example_env sched (NewEngine example_cfg)) ''bad.evil.com''"
  by (rule blocked_by_entry [OF _ example_entry])
     (simp_all add: example_white, simp_all add: example_cfg_def DefaultConfig_def)

section \<open>Properties\<close>

text \<open>
  C5. After a successful load the engine implements the configured policy: a name, once normalised,
  is blocked exactly when filtering is enabled, no whitelist text covers it, and some text of the
  blacklist, of a readable local file or of a fetched remote list covers it or a compiled pattern
  matches it.  Sources that failed to load contribute nothing, and do not stop the others.
\<close>

theorem engine_implements_policy:
  "IsBlocked env (LoadRules env sched e) domain \<longleftrightarrow>
     (let d = normalizeDomain (ee_lower env) domain; cfg = eng_cfg e in
      Enabled cfg \<and> d \<noteq> [] \<and>
      \<not> (\<exists>w \<in> set (white_texts env cfg). text_covers (ee_lower env) w d) \<and>
      ((\<exists>b \<in> set (black_texts env cfg). text_covers (ee_lower env) b d) \<or>
       (\<exists>re \<in> set (patterns env cfg). ee_match env re d)))"
  by (simp add: IsBlocked_LoadRules blocked_spec_def Let_def)

text \<open>
  C36. The whitelist overrides everything: a name that a whitelist entry names, either itself or by a
  wildcard at or above it, is not blocked after loading, whatever the blacklists, the remote
  lists and the patterns say, and whether or not the query ends in a dot.
\<close>

theorem whitelist_overrides:
  assumes "raw \<in> set (Whitelist (eng_cfg e))" "entry_names raw q" "x \<in> {q, q @ ''.''}"
  shows "\<not> IsBlocked env (LoadRules env sched e) x"
proof -
  have "host_name q" using assms(2) by (simp add: entry_names_def)
  then show ?thesis
    using entry_names_covers [OF assms(2,1), of "ee_lower env"] assms(3)
    by (auto simp: IsBlocked_LoadRules blocked_spec_def white_texts_def normalize_query)
qed

lemma whitelist_overrides_witness:
  "\<not> IsBlocked example_env (LoadRules example_env id (NewEngine example_cfg)) ''good.evil.com.''"
  by (rule whitelist_overrides [of "''good.evil.com''" _ "''good.evil.com''"])
     (simp_all add: NewEngine_def example_cfg_def entry_names_def host_name_examples)

text \<open>
  C37. A blacklist entry takes effect: a name it names, itself or below its wildcard, is blocked
  after loading if filtering is enabled and no whitelist text covers it.
\<close>

theorem blacklist_blocks:
  assumes "raw \<in> set (Blacklist (eng_cfg e))" "entry_names raw q" "x \<in> {q, q @ ''.''}"
    and "Enabled (eng_cfg e)"
    and "\<forall>w \<in> set (white_texts env (eng_cfg e)). \<not> text_covers (ee_lower env) w q"
  shows "IsBlocked env (LoadRules env sched e) x"
  using assms by (rule blocked_by_entry)

lemma blacklist_blocks_witness:
  "IsBlocked example_env (LoadRules example_env id (NewEngine example_cfg)) ''bad.evil.com''"
  by (rule blacklist_blocks [OF _ example_entry])
     (simp_all add: example_white, simp_all add: example_cfg_def DefaultConfig_def)

text \<open>
  C35. The race between the goroutines that fetch the remote lists is benign: two runs in which the
  goroutines of the configured URLs get the mutex in different orders store the same snapshot, exact
  sets, tries, patterns and count included.
\<close>

theorem load_order_irrelevant: "LoadRules env sched e = LoadRules env sched' e"
  by (rule LoadRules_sched)

text \<open>
  Blocking is monotone in its sources: with more blacklist entries, files, remote lists or
  patterns and fewer whitelist entries, every name that was blocked still is.
\<close>

theorem blocking_monotone:
  assumes "set (Blacklist (eng_cfg e)) \<subseteq> set (Blacklist (eng_cfg e'))"
    "set (BlocklistFiles (eng_cfg e)) \<subseteq> set (BlocklistFiles (eng_cfg e'))"
    "set (RegexBlacklist (eng_cfg e)) \<subseteq> set (RegexBlacklist (eng_cfg e'))"
    "set (BlocklistURLs (eng_cfg e)) \<subseteq> set (BlocklistURLs (eng_cfg e'))"
    "set (Whitelist (eng_cfg e')) \<subseteq> set (Whitelist (eng_cfg e))"
    "Enabled (eng_cfg e) \<longrightarrow> Enabled (eng_cfg e')"
    "IsBlocked env (LoadRules env sched e) domain"
  shows "IsBlocked env (LoadRules env sched' e') domain"
proof -
  have "set (white_texts env (eng_cfg e')) \<subseteq> set (white_texts env (eng_cfg e))"
    using assms(5) by (auto simp: white_texts_def entry_texts_def)
  moreover have "set (black_texts env (eng_cfg e)) \<subseteq> set (black_texts env (eng_cfg e'))"
    using assms(1,2,4) by (auto simp: black_texts_def entry_texts_def)
  moreover have "set (patterns env (eng_cfg e)) \<subseteq> set (patterns env (eng_cfg e'))"
    using assms(3) unfolding patterns_def by (rule map_filter_mono)
  ultimately show ?thesis
    using assms(6,7) by (auto simp: IsBlocked_LoadRules blocked_spec_def Let_def)
qed

lemma blocking_monotone_witness:
  "IsBlocked example_env (LoadRules example_env rev (NewEngine example_cfg)) ''bad.evil.com''"
  by (rule blocking_monotone [of "NewEngine example_cfg" "NewEngine example_cfg" _ id])
     (simp_all add: example_blocked)

text \<open>
  The rule count that is reported: after a load with filtering enabled it is the number of distinct exact
  names plus the number of wildcard texts inserted plus the number of patterns that compiled, and
  a load with filtering disabled leaves the engine as it was.
\<close>

theorem total_rules_correct:
  "(if Enabled (eng_cfg e)
    then TotalRules (LoadRules env sched e) =
      int (card {d \<in> set (black_texts env (eng_cfg e)). \<not> wild_text d}) +
      int (length (filter (\<lambda>d. wild_text d \<and> rule_for (ee_lower env) (d, True) \<noteq> None)
        (black_texts env (eng_cfg e)))) +
      int (length (patterns env (eng_cfg e)))
    else LoadRules env sched e = e \<and> \<not> IsBlocked env e domain)"
proof (cases "Enabled (eng_cfg e)")
  case True
  obtain snap where s: "LoadRules env sched e = e\<lparr>eng_snapshot := Some snap\<rparr>"
    "black_store snap =
       fold (add_text (ee_lower env)) (black_texts env (eng_cfg e)) ({}, NewDomainTrie)"
    "regexBlacklist snap = patterns env (eng_cfg e)"
    "totalRules snap =
       int (card (blacklistExact snap)) + count (blacklistTrie snap) +
       int (length (regexBlacklist snap))"
    by (rule LoadRules_snapshot [OF True])
  with True fold_add_text [of "ee_lower env" "black_texts env (eng_cfg e)"
      "({}, NewDomainTrie)", folded s(2)]
  show ?thesis by (simp add: TotalRules_def black_store_def NewDomainTrie_def)
next
  case False
  then show ?thesis by (simp add: LoadRules_def IsBlocked_disabled)
qed

end
