(* ===== verification/Ring_Buffer.thy ===== *)
theory Ring_Buffer
  imports Go_Prelude
begin

text \<open>
  \<^verbatim>\<open>internal/dns/opsec.go\<close>, lines 147 to 218: the in-memory query log.

  The slots of the Go buffer are pointers to atomic pointers that are never replaced; a slot is its
  content, \<open>None\<close> for nil.  The type of the entries is a parameter.  A method's receiver is an
  optional ring buffer, \<open>None\<close> for a nil pointer.  \<^verbatim>\<open>Push\<close> is two atomic steps, taking a slot
  number from the cursor and storing the entry; \<open>rb_run\<close> lets the steps of concurrent pushes
  interleave.
\<close>

record 'e ring_buffer =
  rb_buffer :: "'e option list"
  rb_size :: u64
  rb_cursor :: u64

definition NewRingBuffer :: "int \<Rightarrow> 'e ring_buffer" where
  "NewRingBuffer sz0 =
     (let sz = (if sz0 \<le> 0 then 1000 else sz0)
      in \<lparr>rb_buffer = replicate (nat sz) None, rb_size = word_of_int sz, rb_cursor = 0\<rparr>)"

text \<open>\<^verbatim>\<open>rb.cursor.Add(1) % rb.size\<close>, and the store.\<close>

definition claim_slot :: "'e ring_buffer \<Rightarrow> 'e ring_buffer \<times> nat" where
  "claim_slot rb =
     (let cur = rb_cursor rb + 1
      in (rb\<lparr>rb_cursor := cur\<rparr>, unat (cur mod rb_size rb)))"

definition store_slot :: "nat \<Rightarrow> 'e \<Rightarrow> 'e ring_buffer \<Rightarrow> 'e ring_buffer" where
  "store_slot idx entry rb = rb\<lparr>rb_buffer := (rb_buffer rb)[idx := Some entry]\<rparr>"

definition Push :: "'e ring_buffer option \<Rightarrow> 'e option \<Rightarrow> 'e ring_buffer option" where
  "Push rb0 entry0 =
     (case rb0 of
        None \<Rightarrow> rb0
      | Some rb \<Rightarrow>
          if rb_size rb = 0 then rb0
          else
            (case entry0 of
               None \<Rightarrow> rb0
             | Some entry \<Rightarrow>
                 (let (rb', idx) = claim_slot rb in Some (store_slot idx entry rb'))))"

definition slot_back :: "'e ring_buffer \<Rightarrow> nat \<Rightarrow> nat" where
  "slot_back rb i = unat ((rb_cursor rb + rb_size rb - of_nat i) mod rb_size rb)"

definition GetRecent :: "'e ring_buffer option \<Rightarrow> int \<Rightarrow> 'e list" where
  "GetRecent rb0 limit0 =
     (case rb0 of
        None \<Rightarrow> []
      | Some rb \<Rightarrow>
          if rb_size rb = 0 \<or> limit0 \<le> 0 then []
          else
            (let limit = (if (word_of_int limit0 :: u64) > rb_size rb then sint (rb_size rb) else limit0)
             in List.map_filter (\<lambda>i. rb_buffer rb ! slot_back rb i) [0..<nat limit]))"

definition RingBuffer_Len :: "'e ring_buffer option \<Rightarrow> int" where
  "RingBuffer_Len rb0 = (case rb0 of None \<Rightarrow> 0 | Some rb \<Rightarrow> sint (rb_size rb))"

section \<open>The history a ring buffer represents\<close>

text \<open>
  \<open>rb_repr rb hs\<close>: \<open>hs\<close> are all entries pushed so far, newest first, and the buffer holds as many
  of them as it has slots.  The cursor must not have come within one buffer length of \<open>2 ^ 64\<close>.
\<close>

definition rb_wf :: "'e ring_buffer \<Rightarrow> bool" where
  "rb_wf rb \<longleftrightarrow>
     0 < unat (rb_size rb) \<and> unat (rb_size rb) < 2 ^ 63 \<and>
     length (rb_buffer rb) = unat (rb_size rb)"

definition rb_repr :: "'e ring_buffer \<Rightarrow> 'e list \<Rightarrow> bool" where
  "rb_repr rb hs \<longleftrightarrow>
     rb_wf rb \<and> rb_cursor rb = of_nat (length hs) \<and>
     (\<forall>i < unat (rb_size rb).
        rb_buffer rb ! ((length hs + unat (rb_size rb) - i) mod unat (rb_size rb)) =
          (if i < length hs then Some (hs ! i) else None))"

lemma rb_wfD:
  assumes "rb_wf rb"
  shows "0 < unat (rb_size rb)" "unat (rb_size rb) < 2 ^ 63"
    "length (rb_buffer rb) = unat (rb_size rb)" "rb_size rb \<noteq> 0"
  using assms by (auto simp: rb_wf_def)

lemma unat_of_int_le: "0 < k \<Longrightarrow> unat (word_of_int k :: u64) \<le> nat k"
  by (simp add: unsigned_of_int nat_mono take_bit_int_less_eq_self_iff)

lemma NewRingBuffer_wf: "sz < 2 ^ 63 \<Longrightarrow> rb_wf (NewRingBuffer sz)"
  by (auto simp: rb_wf_def NewRingBuffer_def Let_def unat_of_int_u64 nat_less_iff)

lemma NewRingBuffer_size:
  "sz < 2 ^ 63 \<Longrightarrow> unat (rb_size (NewRingBuffer sz)) = nat (if sz \<le> 0 then 1000 else sz)"
  by (auto simp: NewRingBuffer_def Let_def unat_of_int_u64)

lemma NewRingBuffer_repr: "sz < 2 ^ 63 \<Longrightarrow> rb_repr (NewRingBuffer sz) []"
  using NewRingBuffer_wf [of sz] NewRingBuffer_size [of sz]
  by (auto simp: rb_repr_def NewRingBuffer_def Let_def rb_wf_def)

lemma claim_slot_idx:
  assumes "rb_cursor rb = of_nat n" "n + 1 < 2 ^ 64"
  shows "snd (claim_slot rb) = (n + 1) mod unat (rb_size rb)"
proof -
  have "unat (of_nat n + 1 :: u64) = n + 1"
    using unat_of_nat_u64 [OF assms(2)] by (simp add: add.commute)
  then show ?thesis
    using assms(1) by (simp add: claim_slot_def Let_def unat_mod)
qed

lemma slot_back_eq:
  assumes "rb_cursor rb = of_nat n" "n + unat (rb_size rb) < 2 ^ 64" "i < unat (rb_size rb)"
  shows "slot_back rb i = (n + unat (rb_size rb) - i) mod unat (rb_size rb)"
proof -
  have "rb_cursor rb + rb_size rb - of_nat i = (of_nat (n + unat (rb_size rb) - i) :: u64)"
    using assms by (simp add: of_nat_diff)
  then show ?thesis
    using assms unat_of_nat_u64 [of "n + unat (rb_size rb) - i"]
    by (simp add: slot_back_def unat_mod)
qed

lemma mod_back_neq:
  fixes n s i :: nat
  assumes "0 < i" "i < s"
  shows "(n + s - i) mod s \<noteq> n mod s"
proof
  assume "(n + s - i) mod s = n mod s"
  then have "(n + s - i + i) mod s = (n + i) mod s" by (metis mod_add_left_eq)
  then have "n mod s = (n + i) mod s" using assms by simp
  then have "i mod s = 0" by (metis mod_add_self1 mod_eq_dvd_iff_nat diff_add_inverse dvd_imp_mod_0 le_add1)
  then show False using assms by simp
qed

lemma Push_repr:
  assumes "rb_repr rb hs" "length hs + 1 < 2 ^ 64"
  obtains rb' where "Push (Some rb) (Some e) = Some rb'" "rb_repr rb' (e # hs)"
    "rb_size rb' = rb_size rb"
proof -
  let ?s = "unat (rb_size rb)" and ?n = "length hs"
  have wf: "rb_wf rb" and cur: "rb_cursor rb = of_nat ?n"
    and slots: "\<And>i. i < ?s \<Longrightarrow> rb_buffer rb ! ((?n + ?s - i) mod ?s) =
                  (if i < ?n then Some (hs ! i) else None)"
    using assms(1) by (auto simp: rb_repr_def)
  define rb' where "rb' = store_slot ((?n + 1) mod ?s) e (rb\<lparr>rb_cursor := rb_cursor rb + 1\<rparr>)"
  have push: "Push (Some rb) (Some e) = Some rb'"
    using claim_slot_idx [OF cur assms(2)] rb_wfD(4) [OF wf]
    by (simp add: Push_def rb'_def claim_slot_def Let_def)
  have size: "rb_size rb' = rb_size rb" by (simp add: rb'_def store_slot_def)
  have buf: "rb_buffer rb' = (rb_buffer rb)[(?n + 1) mod ?s := Some e]"
    by (simp add: rb'_def store_slot_def)
  have "rb_buffer rb' ! ((?n + 1 + ?s - i) mod ?s) =
      (if i < ?n + 1 then Some ((e # hs) ! i) else None)" if "i < ?s" for i
  proof (cases i)
    case 0
    have "(?n + 1 + ?s) mod ?s = (?n + 1) mod ?s" by (rule mod_add_self2)
    with 0 show ?thesis using rb_wfD [OF wf] by (simp add: buf del: mod_add_self2)
  next
    case (Suc k)
    have "(?n + 1 + ?s - i) mod ?s \<noteq> (?n + 1) mod ?s"
      using mod_back_neq [of i ?s "?n + 1"] that Suc by simp
    moreover have "?n + 1 + ?s - i = ?n + ?s - k" using Suc by simp
    ultimately show ?thesis using slots [of k] that Suc by (simp add: buf)
  qed
  then have "rb_repr rb' (e # hs)"
    using wf cur by (simp add: rb_repr_def size rb_wf_def buf) (simp add: rb'_def store_slot_def add.commute)
  with push size show ?thesis using that by blast
qed

lemma map_filter_Some_prefix:
  "List.map_filter (\<lambda>i. if i < n then Some (f i) else None) [0..<m] = map f [0..<min m n]"
proof (induction m)
  case (Suc m)
  then show ?case by (cases "m < n") (simp_all add: List.map_filter_def min_def)
qed (simp add: List.map_filter_def)

lemma GetRecent_repr:
  assumes "rb_repr rb hs" "length hs + unat (rb_size rb) < 2 ^ 64" "limit < 2 ^ 63"
  shows "GetRecent (Some rb) limit = take (min (nat limit) (unat (rb_size rb))) hs"
proof (cases "limit \<le> 0")
  case True
  then show ?thesis by (simp add: GetRecent_def)
next
  case False
  let ?s = "unat (rb_size rb)"
  have wf: "rb_wf rb" and cur: "rb_cursor rb = of_nat (length hs)"
    using assms(1) by (auto simp: rb_repr_def)
  define l where "l = (if (word_of_int limit :: u64) > rb_size rb then sint (rb_size rb) else limit)"
  have sint: "sint (rb_size rb) = int ?s"
    using rb_wfD(2) [OF wf] by (rule sint_u64)
  have "unat (word_of_int limit :: u64) = nat limit"
    using False assms(3) by (intro unat_of_int_u64) simp_all
  then have l: "nat l = min (nat limit) ?s"
    using sint by (auto simp: l_def word_less_nat_alt)
  have "rb_buffer rb ! slot_back rb i = (if i < length hs then Some (hs ! i) else None)"
    if "i < nat l" for i
    using that l assms(1) slot_back_eq [OF cur assms(2), of i] by (simp add: rb_repr_def)
  then have "List.map_filter (\<lambda>i. rb_buffer rb ! slot_back rb i) [0..<nat l] =
      List.map_filter (\<lambda>i. if i < length hs then Some (hs ! i) else None) [0..<nat l]"
    by (intro map_filter_cong') simp_all
  then have "GetRecent (Some rb) limit =
      List.map_filter (\<lambda>i. if i < length hs then Some (hs ! i) else None) [0..<nat l]"
    using False rb_wfD(4) [OF wf] by (simp add: GetRecent_def l_def [symmetric] Let_def)
  also have "\<dots> = take (nat l) hs"
    unfolding map_filter_Some_prefix by (rule nth_equalityI) auto
  finally show ?thesis by (simp add: l)
qed

section \<open>Concurrent pushes\<close>

text \<open>
  A run of pushes by any number of goroutines: \<open>es\<close> are the entries whose push has taken its slot,
  in that order, and \<open>ps\<close> the pushes that have not stored their entry yet.
\<close>

inductive rb_run ::
  "'e ring_buffer \<Rightarrow> 'e list \<Rightarrow> 'e ring_buffer \<Rightarrow> (nat \<times> 'e) list \<Rightarrow> bool" for rb0 where
  run_start: "rb_run rb0 [] rb0 []"
| run_claim: "rb_run rb0 es rb ps \<Longrightarrow> claim_slot rb = (rb', idx) \<Longrightarrow>
    rb_run rb0 (es @ [e]) rb' ((idx, e) # ps)"
| run_store: "rb_run rb0 es rb (ps @ (idx, e) # qs) \<Longrightarrow>
    rb_run rb0 es (store_slot idx e rb) (ps @ qs)"

lemma claim_slot_frame:
  "claim_slot rb = (rb', idx) \<Longrightarrow>
     rb_buffer rb' = rb_buffer rb \<and> rb_size rb' = rb_size rb \<and> rb_cursor rb' = rb_cursor rb + 1"
  by (auto simp: claim_slot_def Let_def)

lemma store_slot_frame [simp]:
  "rb_size (store_slot idx e rb) = rb_size rb"
  "rb_cursor (store_slot idx e rb) = rb_cursor rb"
  "rb_buffer (store_slot idx e rb) = (rb_buffer rb)[idx := Some e]"
  by (simp_all add: store_slot_def)

lemma rb_run_shape:
  assumes "rb_run rb0 es rb ps" "rb_wf rb0" "rb_cursor rb0 = 0"
  shows "rb_wf rb \<and> rb_size rb = rb_size rb0 \<and> rb_cursor rb = of_nat (length es)"
  using assms
  by (induction) (auto simp: rb_wf_def dest!: claim_slot_frame)

lemma rb_run_entries:
  assumes "rb_run rb0 es rb ps" "set (rb_buffer rb0) \<subseteq> {None}"
  shows "snd ` set ps \<subseteq> set es \<and> set (rb_buffer rb) \<subseteq> insert None (Some ` set es)"
  using assms
proof induction
  case (run_claim es rb ps rb' idx e)
  then show ?case by (auto dest!: claim_slot_frame)
next
  case (run_store es rb ps idx e qs)
  then have "set ((rb_buffer rb)[idx := Some e]) \<subseteq> insert None (Some ` set es)"
    using set_update_subset_insert [of "rb_buffer rb" idx "Some e"] by auto
  with run_store show ?case by auto
qed auto

text \<open>Until the buffer is full, every push has a slot of its own.\<close>

lemma slot_inj:
  fixes s :: nat
  assumes "t < s" "t' < s" "(t + 1) mod s = (t' + 1) mod s"
  shows "t = t'"
  using assms by (cases "t + 1 = s"; cases "t' + 1 = s") (auto simp: mod_less)

definition rb_filling :: "'e list \<Rightarrow> 'e ring_buffer \<Rightarrow> (nat \<times> 'e) list \<Rightarrow> bool" where
  "rb_filling es rb ps \<longleftrightarrow>
     (let s = unat (rb_size rb) in
      distinct (map fst ps) \<and>
      (\<forall>(j, e) \<in> set ps. \<exists>t < length es. j = (t + 1) mod s \<and> e = es ! t) \<and>
      (\<forall>t < length es. (t + 1) mod s \<notin> fst ` set ps \<longrightarrow>
         rb_buffer rb ! ((t + 1) mod s) = Some (es ! t)) \<and>
      (\<forall>j < s. (\<forall>t < length es. (t + 1) mod s \<noteq> j) \<longrightarrow> rb_buffer rb ! j = None))"

lemma rb_filling_claim:
  assumes "rb_filling es rb ps" "rb_wf rb" "rb_cursor rb = of_nat (length es)"
    "length es < unat (rb_size rb)" "claim_slot rb = (rb', idx)"
  shows "rb_filling (es @ [e]) rb' ((idx, e) # ps)"
proof -
  let ?n = "length es" and ?s = "unat (rb_size rb)"
  have idx: "idx = (?n + 1) mod ?s"
    using claim_slot_idx [OF assms(3)] assms(4,5) rb_wfD(2) [OF assms(2)] by simp
  have fresh: "(t + 1) mod ?s \<noteq> idx" if "t < ?n" for t
    using slot_inj [of t ?s ?n] that assms(4) idx by auto
  have "idx \<notin> fst ` set ps"
  proof
    assume "idx \<in> fst ` set ps"
    then obtain e' where "(idx, e') \<in> set ps" by auto
    then obtain t where "t < ?n" "idx = (t + 1) mod ?s"
      using assms(1) unfolding rb_filling_def Let_def by blast
    with fresh show False by blast
  qed
  moreover have "\<exists>t < Suc ?n. j = (t + 1) mod ?s \<and> e' = (es @ [e]) ! t"
    if "(j, e') \<in> set ps" for j e'
    using that assms(1) by (fastforce simp: rb_filling_def Let_def nth_append)
  moreover have "\<exists>t < Suc ?n. idx = (t + 1) mod ?s \<and> e = (es @ [e]) ! t"
    using idx by (intro exI [of _ ?n]) simp
  ultimately show ?thesis
    using assms(1) claim_slot_frame [OF assms(5)] idx
    by (auto simp: rb_filling_def Let_def nth_append less_Suc_eq)
qed

lemma rb_filling_store:
  assumes "rb_filling es rb (ps @ (idx, e) # qs)" "rb_wf rb" "length es \<le> unat (rb_size rb)"
  shows "rb_filling es (store_slot idx e rb) (ps @ qs)"
proof -
  let ?s = "unat (rb_size rb)"
  obtain t where t: "t < length es" "idx = (t + 1) mod ?s" "e = es ! t"
    using assms(1) by (auto simp: rb_filling_def Let_def)
  have idx: "idx < length (rb_buffer rb)" using t rb_wfD [OF assms(2)] by simp
  have "(rb_buffer rb)[idx := Some e] ! ((t' + 1) mod ?s) = Some (es ! t')"
    if "t' < length es" "(t' + 1) mod ?s \<notin> fst ` set (ps @ qs)" for t'
  proof (cases "t' = t")
    case False
    then have "(t' + 1) mod ?s \<noteq> idx" using slot_inj [of t' ?s t] that t assms(3) by auto
    then show ?thesis using that assms(1) by (auto simp: rb_filling_def Let_def)
  qed (use t idx in simp)
  then show ?thesis using assms(1) t by (auto simp: rb_filling_def Let_def)
qed

lemma rb_run_filling:
  assumes "rb_run rb0 es rb ps" "rb_wf rb0" "rb_cursor rb0 = 0"
    "\<forall>j < unat (rb_size rb0). rb_buffer rb0 ! j = None" "length es \<le> unat (rb_size rb0)"
  shows "rb_filling es rb ps"
  using assms
proof induction
  case run_start
  then show ?case by (simp add: rb_filling_def Let_def)
next
  case (run_claim es rb ps rb' idx e)
  then show ?case using rb_run_shape [OF run_claim.hyps(1)] by (intro rb_filling_claim) auto
next
  case (run_store es rb ps idx e qs)
  then show ?case using rb_run_shape [OF run_store.hyps] by (intro rb_filling_store) auto
qed

lemma rb_filling_repr:
  assumes "rb_filling es rb []" "rb_wf rb" "rb_cursor rb = of_nat (length es)"
    "length es \<le> unat (rb_size rb)"
  shows "rb_repr rb (rev es)"
proof -
  let ?n = "length es" and ?s = "unat (rb_size rb)"
  have "rb_buffer rb ! ((?n + ?s - i) mod ?s) = (if i < ?n then Some (rev es ! i) else None)"
    if "i < ?s" for i
  proof (cases "i < ?n")
    case True
    have "?n + ?s - i = (?n - 1 - i + 1) + ?s" using True by simp
    then have "(?n + ?s - i) mod ?s = (?n - 1 - i + 1) mod ?s" by (metis mod_add_self2)
    then show ?thesis using True assms(1) by (simp add: rb_filling_def Let_def rev_nth)
  next
    case False
    have "(t + 1) mod ?s \<noteq> (?n + ?s - i) mod ?s" if "t < ?n" for t
    proof
      assume eq: "(t + 1) mod ?s = (?n + ?s - i) mod ?s"
      have "?n + ?s - i = (?n + ?s - i - 1) + 1" using \<open>i < ?s\<close> by simp
      then have "t = ?n + ?s - i - 1"
        using slot_inj [of t ?s "?n + ?s - i - 1"] eq that False \<open>i < ?s\<close> assms(4) by simp
      then show False using that \<open>i < ?s\<close> by simp
    qed
    moreover have "(?n + ?s - i) mod ?s < ?s" using that by simp
    ultimately show ?thesis using False assms(1) unfolding rb_filling_def Let_def by auto
  qed
  then show ?thesis using assms by (simp add: rb_repr_def)
qed

section \<open>Properties\<close>

text \<open>
  C29. The query log returns the most recent entries: after any pushes one after another, \<^verbatim>\<open>GetRecent(limit)\<close>
  is the last pushed entries, newest first, as many as the limit, the capacity and the number of
  pushes allow.  The bound on the number of pushes excludes a cursor that has wrapped around.
\<close>

theorem ring_returns_recent:
  assumes "sz < 2 ^ 63" "limit < 2 ^ 63" "length es < 2 ^ 63"
  shows "GetRecent (fold (\<lambda>e rb. Push rb (Some e)) es (Some (NewRingBuffer sz))) limit =
    take (min (nat limit) (nat (if sz \<le> 0 then 1000 else sz))) (rev es)"
proof -
  have "\<exists>rb. fold (\<lambda>e rb. Push rb (Some e)) es (Some (NewRingBuffer sz)) = Some rb \<and>
      rb_repr rb (rev es) \<and> rb_size rb = rb_size (NewRingBuffer sz :: 'a ring_buffer)"
    using assms(3)
  proof (induction es rule: rev_induct)
    case Nil
    then show ?case using NewRingBuffer_repr [OF assms(1)] by simp
  next
    case (snoc e es)
    then obtain rb where "fold (\<lambda>e rb. Push rb (Some e)) es (Some (NewRingBuffer sz)) = Some rb"
      "rb_repr rb (rev es)" "rb_size rb = rb_size (NewRingBuffer sz :: 'a ring_buffer)"
      by auto
    with snoc.prems show ?case by (auto elim: Push_repr [of rb "rev es" e])
  qed
  then obtain rb where rb: "fold (\<lambda>e rb. Push rb (Some e)) es (Some (NewRingBuffer sz)) = Some rb"
    "rb_repr rb (rev es)" "unat (rb_size rb) = nat (if sz \<le> 0 then 1000 else sz)"
    using NewRingBuffer_size [OF assms(1)] by metis
  moreover have "unat (rb_size rb) < 2 ^ 63" using rb(2) by (simp add: rb_repr_def rb_wf_def)
  ultimately show ?thesis using GetRecent_repr [OF rb(2) _ assms(2)] assms(3) by simp
qed

lemma ring_returns_recent_witness:
  "GetRecent (fold (\<lambda>e rb. Push rb (Some e)) [10, 20, 30, 40 :: nat] (Some (NewRingBuffer 3))) 7 =
     [40, 30, 20]"
  using ring_returns_recent [of 3 7 "[10, 20, 30, 40 :: nat]"] by simp

text \<open>
  C30. However concurrent pushes interleave, the log loses and reorders nothing until it is full:
  once no push is under way, \<^verbatim>\<open>GetRecent\<close> returns the entries in the order, from the last one, in
  which their pushes took their slots.
\<close>

theorem ring_concurrent_complete:
  assumes "rb_run (NewRingBuffer sz) es rb []" "sz < 2 ^ 63" "limit < 2 ^ 63"
    "length es \<le> nat (if sz \<le> 0 then 1000 else sz)"
  shows "GetRecent (Some rb) limit = take (nat limit) (rev es)"
proof -
  note size = NewRingBuffer_size [OF assms(2), where 'a = 'a]
  have cur0: "rb_cursor (NewRingBuffer sz :: 'a ring_buffer) = 0"
    and none: "\<forall>j < unat (rb_size (NewRingBuffer sz :: 'a ring_buffer)).
        rb_buffer (NewRingBuffer sz :: 'a ring_buffer) ! j = None"
    unfolding size by (auto simp: NewRingBuffer_def Let_def)
  note wf0 = NewRingBuffer_wf [OF assms(2), where 'a = 'a]
  note shape = rb_run_shape [OF assms(1) wf0 cur0]
  have len: "length es \<le> unat (rb_size rb)" using assms(4) shape size by simp
  have "rb_repr rb (rev es)"
    using rb_run_filling [OF assms(1) wf0 cur0 none] shape len by (intro rb_filling_repr) auto
  then have "GetRecent (Some rb) limit = take (min (nat limit) (unat (rb_size rb))) (rev es)"
    using assms(3) len shape rb_wfD(2) [of rb] by (intro GetRecent_repr) auto
  then show ?thesis using len by (simp add: min_def)
qed

lemma ring_concurrent_complete_witness:
  "GetRecent (Some (store_slot 1 True (store_slot 2 False
     (NewRingBuffer 3 \<lparr>rb_cursor := 2\<rparr>)))) 5 = [False, True]"
proof -
  have "rb_run (NewRingBuffer 3) ([] @ [True]) (NewRingBuffer 3 \<lparr>rb_cursor := 1\<rparr>) ((1, True) # [])"
    by (rule run_claim, rule run_start) (simp add: claim_slot_def NewRingBuffer_def Let_def)
  then have "rb_run (NewRingBuffer 3) (([] @ [True]) @ [False])
      (NewRingBuffer 3 \<lparr>rb_cursor := 2\<rparr>) ((2, False) # (1, True) # [])"
    by (rule run_claim) (simp add: claim_slot_def NewRingBuffer_def Let_def)
  then have "rb_run (NewRingBuffer 3) [True, False]
      (store_slot 2 False (NewRingBuffer 3 \<lparr>rb_cursor := 2\<rparr>)) [(1, True)]"
    using run_store [of _ _ _ "[]" 2 False "[(1, True)]"] by simp
  then have "rb_run (NewRingBuffer 3) [True, False]
      (store_slot 1 True (store_slot 2 False (NewRingBuffer 3 \<lparr>rb_cursor := 2\<rparr>))) []"
    using run_store [of _ _ _ "[]" 1 True "[]"] by simp
  then show ?thesis using ring_concurrent_complete [of 3 "[True, False]" _ 5] by simp
qed

text \<open>
  A reader that runs among any number of concurrent pushes, full buffer and wrapped cursor included,
  only ever sees entries that were pushed, and never more of them than it asked for.
\<close>

lemma ring_reads_are_pushed:
  assumes "rb_run (NewRingBuffer sz) es rb ps" "sz < 2 ^ 63"
  shows "set (GetRecent (Some rb) limit) \<subseteq> set es \<and> length (GetRecent (Some rb) limit) \<le> nat limit"
proof -
  have buf: "set (rb_buffer rb) \<subseteq> insert None (Some ` set es)"
    using rb_run_entries [OF assms(1)] by (auto simp: NewRingBuffer_def Let_def)
  have cur0: "rb_cursor (NewRingBuffer sz :: 'a ring_buffer) = 0"
    by (simp add: NewRingBuffer_def Let_def)
  have wf: "rb_wf rb"
    using rb_run_shape [OF assms(1) NewRingBuffer_wf [OF assms(2)] cur0] by simp
  have slot: "slot_back rb i < length (rb_buffer rb)" for i
    using rb_wfD [OF wf] by (simp add: slot_back_def unat_mod)
  have "e \<in> set es" if "rb_buffer rb ! slot_back rb i = Some e" for e i
    using nth_mem [OF slot, of i] that buf by auto
  moreover have "nat (if (word_of_int limit :: u64) > rb_size rb then sint (rb_size rb) else limit)
      \<le> nat limit" if "0 < limit"
    using that unat_of_int_le [of limit] sint_u64 [OF rb_wfD(2) [OF wf]]
    by (auto simp: word_less_nat_alt)
  moreover have "length (List.map_filter f [0..<m]) \<le> k" if "m \<le> k" for f :: "nat \<Rightarrow> 'a option" and m k
    using length_map_filter_le [of f "[0..<m]"] that by simp
  ultimately show ?thesis
    by (auto simp: GetRecent_def Let_def in_set_map_filter simp del: linorder_not_less)
qed

end
