(* ===== verification/Dns_Msg.thy ===== *)
theory Dns_Msg
  imports Go_Net
begin

text \<open>
  DNS messages as the program sees them.  The package \<^verbatim>\<open>github.com/miekg/dns\<close> is not part of the
  repository: its message struct is the record \<open>msg\<close> (a record type has only the fields and the
  concrete types the program's type switches look at; any other resource record is \<open>OtherRR\<close>, with its
  content opaque), and its functions are the fields of the record \<open>dnslib\<close>, an argument of every
  definition that calls them.  What the proofs rely on is stated in \<open>dns_ok\<close>, one documented
  fact per conjunct; \<open>example_lib\<close> is an instance that satisfies it.

  A \<^verbatim>\<open>*dns.Msg\<close> is a message value, \<open>None\<close> being nil: the program never writes to a message that it
  also keeps elsewhere (\<^verbatim>\<open>Copy\<close> precedes every such write).  The pointer that \<^verbatim>\<open>IsEdns0\<close> returns into
  the additional section, through which the program changes the message, is an index into that
  section.
\<close>

section \<open>Messages\<close>

record question =
  qName :: string
  qType :: u16
  qClass :: u16

record rr_hdr =
  hName :: string
  hRrtype :: u16
  hClass :: u16
  hTtl :: u32

datatype edns0 =
    EDNS0_PADDING "u8 list"
  | EDNS0_Other u16 "u8 list"

datatype rr =
    RR_A rr_hdr ip
  | RR_AAAA rr_hdr ip
  | RR_CNAME rr_hdr string
  | RR_OPT rr_hdr "edns0 list"
  | OtherRR rr_hdr string

record msg =
  mId :: u16
  mResponse :: bool
  mOpcode :: int
  mAuthoritative :: bool
  mTruncated :: bool
  mRecursionDesired :: bool
  mRecursionAvailable :: bool
  mRcode :: int
  mQuestion :: "question list"
  mAnswer :: "rr list"
  mNs :: "rr list"
  mExtra :: "rr list"

definition TypeA :: u16 where "TypeA = 1"
definition TypeAAAA :: u16 where "TypeAAAA = 28"
definition TypeOPT :: u16 where "TypeOPT = 41"
definition ClassINET :: u16 where "ClassINET = 1"
definition EDNS0SUBNET :: u16 where "EDNS0SUBNET = 8"
definition EDNS0PADDING :: u16 where "EDNS0PADDING = 12"
definition RcodeSuccess :: int where "RcodeSuccess = 0"
definition RcodeFormatError :: int where "RcodeFormatError = 1"
definition RcodeServerFailure :: int where "RcodeServerFailure = 2"
definition RcodeNameError :: int where "RcodeNameError = 3"

lemmas dns_consts =
  TypeA_def TypeAAAA_def TypeOPT_def ClassINET_def EDNS0SUBNET_def EDNS0PADDING_def
  RcodeSuccess_def RcodeFormatError_def RcodeServerFailure_def RcodeNameError_def

text \<open>\<^verbatim>\<open>new(dns.Msg)\<close>, \<^verbatim>\<open>rr.Header()\<close>, \<^verbatim>\<open>o.Option()\<close>.\<close>

definition new_msg :: msg where
  "new_msg =
     \<lparr>mId = 0, mResponse = False, mOpcode = 0, mAuthoritative = False, mTruncated = False,
      mRecursionDesired = False, mRecursionAvailable = False, mRcode = 0, mQuestion = [],
      mAnswer = [], mNs = [], mExtra = []\<rparr>"

fun rr_header :: "rr \<Rightarrow> rr_hdr" where
  "rr_header (RR_A h a) = h"
| "rr_header (RR_AAAA h a) = h"
| "rr_header (RR_CNAME h t) = h"
| "rr_header (RR_OPT h os) = h"
| "rr_header (OtherRR h d) = h"

fun set_header :: "rr_hdr \<Rightarrow> rr \<Rightarrow> rr" where
  "set_header h (RR_A h' a) = RR_A h a"
| "set_header h (RR_AAAA h' a) = RR_AAAA h a"
| "set_header h (RR_CNAME h' t) = RR_CNAME h t"
| "set_header h (RR_OPT h' os) = RR_OPT h os"
| "set_header h (OtherRR h' d) = OtherRR h d"

lemma rr_header_set [simp]: "rr_header (set_header h r) = h"
  by (cases r) simp_all

fun option_code :: "edns0 \<Rightarrow> u16" where
  "option_code (EDNS0_PADDING p) = EDNS0PADDING"
| "option_code (EDNS0_Other c d) = c"

text \<open>The options of an OPT record, read and written through a pointer into the additional section.\<close>

fun rr_options :: "rr \<Rightarrow> edns0 list" where
  "rr_options (RR_OPT h os) = os"
| "rr_options _ = []"

fun set_rr_options :: "edns0 list \<Rightarrow> rr \<Rightarrow> rr" where
  "set_rr_options os (RR_OPT h _) = RR_OPT h os"
| "set_rr_options os r = r"

definition get_options :: "msg \<Rightarrow> nat \<Rightarrow> edns0 list" where
  "get_options m i = rr_options (mExtra m ! i)"

definition set_options :: "nat \<Rightarrow> edns0 list \<Rightarrow> msg \<Rightarrow> msg" where
  "set_options i os m = m\<lparr>mExtra := (mExtra m)[i := set_rr_options os (mExtra m ! i)]\<rparr>"

fun is_opt :: "rr \<Rightarrow> bool" where
  "is_opt (RR_OPT h os) = (hRrtype h = TypeOPT)"
| "is_opt _ = False"

text \<open>\<open>has_opt m i\<close>: a pointer to the OPT record at \<open>i\<close> is a valid one.\<close>

definition has_opt :: "msg \<Rightarrow> nat \<Rightarrow> bool" where
  "has_opt m i \<longleftrightarrow> i < length (mExtra m) \<and> is_opt (mExtra m ! i)"

lemma is_opt_set_options [simp]: "is_opt (set_rr_options os r) = is_opt r"
  by (cases r) simp_all

lemma rr_options_set [simp]: "is_opt r \<Longrightarrow> rr_options (set_rr_options os r) = os"
  by (cases r) simp_all

lemma set_rr_options_twice [simp]: "set_rr_options os (set_rr_options os' r) = set_rr_options os r"
  by (cases r) simp_all

lemma has_opt_set_options [simp]: "has_opt (set_options i os m) i = has_opt m i"
  by (auto simp: has_opt_def set_options_def)

lemma get_set_options [simp]: "has_opt m i \<Longrightarrow> get_options (set_options i os m) i = os"
  by (simp add: has_opt_def set_options_def get_options_def)

lemma set_set_options [simp]: "set_options i os (set_options i os' m) = set_options i os m"
  by (cases "i < length (mExtra m)") (simp_all add: set_options_def list_update_beyond)

lemma set_options_frame [simp]:
  "mId (set_options i os m) = mId m"
  "mQuestion (set_options i os m) = mQuestion m"
  "mAnswer (set_options i os m) = mAnswer m"
  "mNs (set_options i os m) = mNs m"
  "mRcode (set_options i os m) = mRcode m"
  "length (mExtra (set_options i os m)) = length (mExtra m)"
  by (simp_all add: set_options_def)

section \<open>The library\<close>

record dnslib =
  Fqdn :: "string \<Rightarrow> string"
  Copy :: "msg \<Rightarrow> msg"
  SetReply :: "msg \<Rightarrow> msg \<Rightarrow> msg"
  SetRcode :: "msg \<Rightarrow> msg option \<Rightarrow> int \<Rightarrow> msg option"
  IsEdns0 :: "msg \<Rightarrow> nat option"
  SetEdns0 :: "msg \<Rightarrow> nat \<Rightarrow> bool \<Rightarrow> msg"
  SetDo :: "rr_hdr \<Rightarrow> rr_hdr"
  WireLen :: "msg \<Rightarrow> nat"

text \<open>\<^verbatim>\<open>Fqdn\<close> completes a name with the final dot, unless it is there.\<close>

definition fqdn_ok :: "dnslib \<Rightarrow> bool" where
  "fqdn_ok lib \<longleftrightarrow> (\<forall>s. Fqdn lib s = s \<or> Fqdn lib s = s @ ''.'')"

text \<open>\<^verbatim>\<open>Copy\<close> returns a deep copy.\<close>

definition copy_ok :: "dnslib \<Rightarrow> bool" where
  "copy_ok lib \<longleftrightarrow> (\<forall>m. Copy lib m = m)"

text \<open>
  \<^verbatim>\<open>SetReply\<close> turns its receiver into a reply to a request, with the request's ID and first
  question and return code NOERROR; \<^verbatim>\<open>SetRcode\<close> does that and sets the code.  Neither adds records.
\<close>

definition reply_to :: "msg \<Rightarrow> int \<Rightarrow> msg \<Rightarrow> bool" where
  "reply_to r rc m \<longleftrightarrow>
     mId m = mId r \<and> mResponse m \<and> mRcode m = rc \<and> mQuestion m = take 1 (mQuestion r) \<and>
     mAnswer m = [] \<and> mNs m = [] \<and> mExtra m = []"

definition reply_ok :: "dnslib \<Rightarrow> bool" where
  "reply_ok lib \<longleftrightarrow>
     (\<forall>r. reply_to r RcodeSuccess (SetReply lib new_msg r)) \<and>
     (\<forall>r rc. \<exists>m. SetRcode lib new_msg (Some r) rc = Some m \<and> reply_to r rc m)"

text \<open>
  \<^verbatim>\<open>IsEdns0\<close> returns an OPT record of the additional section, if it has one; \<^verbatim>\<open>SetEdns0\<close> appends one
  without options; \<^verbatim>\<open>SetDo\<close> sets a bit of the header's TTL field.
\<close>

definition edns0_ok :: "dnslib \<Rightarrow> bool" where
  "edns0_ok lib \<longleftrightarrow>
     (\<forall>m i. IsEdns0 lib m = Some i \<longrightarrow> has_opt m i) \<and>
     (\<forall>m. IsEdns0 lib m = None \<longrightarrow> \<not> list_ex is_opt (mExtra m)) \<and>
     (\<forall>m n d. \<exists>h. hRrtype h = TypeOPT \<and>
        SetEdns0 lib m n d = m\<lparr>mExtra := mExtra m @ [RR_OPT h []]\<rparr>) \<and>
     (\<forall>h. hRrtype (SetDo lib h) = hRrtype h)"

text \<open>Padding is counted by \<^verbatim>\<open>Len\<close> byte by byte.\<close>

definition len_ok :: "dnslib \<Rightarrow> bool" where
  "len_ok lib \<longleftrightarrow>
     (\<forall>m i os p. has_opt m i \<longrightarrow>
        WireLen lib (set_options i (os @ [EDNS0_PADDING p]) m) =
        WireLen lib (set_options i (os @ [EDNS0_PADDING []]) m) + length p)"

definition dns_ok :: "dnslib \<Rightarrow> bool" where
  "dns_ok lib \<longleftrightarrow> fqdn_ok lib \<and> copy_ok lib \<and> reply_ok lib \<and> edns0_ok lib \<and> len_ok lib"

lemma dns_okD:
  assumes "dns_ok lib"
  shows "fqdn_ok lib" "copy_ok lib" "reply_ok lib" "edns0_ok lib" "len_ok lib"
  using assms by (simp_all add: dns_ok_def)

lemma Copy_id [simp]: "dns_ok lib \<Longrightarrow> Copy lib m = m"
  by (simp add: dns_ok_def copy_ok_def)

lemma IsEdns0_Some: "edns0_ok lib \<Longrightarrow> IsEdns0 lib m = Some i \<Longrightarrow> has_opt m i"
  by (simp add: edns0_ok_def)

lemma IsEdns0_None: "edns0_ok lib \<Longrightarrow> IsEdns0 lib m = None \<Longrightarrow> \<not> list_ex is_opt (mExtra m)"
  by (simp add: edns0_ok_def)

lemma IsEdns0_SetEdns0:
  assumes "edns0_ok lib"
  obtains i where "IsEdns0 lib (SetEdns0 lib m n d) = Some i"
proof -
  obtain h where "hRrtype h = TypeOPT" "SetEdns0 lib m n d = m\<lparr>mExtra := mExtra m @ [RR_OPT h []]\<rparr>"
    using assms unfolding edns0_ok_def by blast
  then have "list_ex is_opt (mExtra (SetEdns0 lib m n d))" by simp
  then show ?thesis using that IsEdns0_None [OF assms, of "SetEdns0 lib m n d"] by fastforce
qed

lemma SetEdns0_extra:
  assumes "edns0_ok lib"
  obtains h where "hRrtype h = TypeOPT" "SetEdns0 lib m n d = m\<lparr>mExtra := mExtra m @ [RR_OPT h []]\<rparr>"
  using assms unfolding edns0_ok_def by blast

section \<open>An instance\<close>

text \<open>A library that satisfies the hypotheses, for the concrete inputs of the witnesses.\<close>

definition example_reply :: "msg \<Rightarrow> msg \<Rightarrow> int \<Rightarrow> msg" where
  "example_reply m r rc =
     m\<lparr>mId := mId r, mResponse := True, mOpcode := mOpcode r,
       mRecursionDesired := mRecursionDesired r, mRcode := rc, mQuestion := take 1 (mQuestion r)\<rparr>"

fun example_opt :: "nat \<Rightarrow> rr list \<Rightarrow> nat option" where
  "example_opt i [] = None"
| "example_opt i (r # rs) = (if is_opt r then Some i else example_opt (i + 1) rs)"

fun option_size :: "edns0 \<Rightarrow> nat" where
  "option_size (EDNS0_PADDING p) = 4 + length p"
| "option_size (EDNS0_Other c d) = 4 + length d"

definition example_hdr :: "nat \<Rightarrow> bool \<Rightarrow> rr_hdr" where
  "example_hdr n d =
     \<lparr>hName = ''.'', hRrtype = TypeOPT, hClass = of_nat n, hTtl = (if d then 0x8000 else 0)\<rparr>"

definition example_lib :: dnslib where
  "example_lib =
     \<lparr>Fqdn = (\<lambda>s. if has_suffix s ''.'' then s else s @ ''.''),
      Copy = (\<lambda>m. m),
      SetReply = (\<lambda>m r. example_reply m r RcodeSuccess),
      SetRcode = (\<lambda>m r rc. map_option (\<lambda>r. example_reply m r rc) r),
      IsEdns0 = (\<lambda>m. example_opt 0 (mExtra m)),
      SetEdns0 = (\<lambda>m n d. m\<lparr>mExtra := mExtra m @ [RR_OPT (example_hdr n d) []]\<rparr>),
      SetDo = (\<lambda>h. h\<lparr>hTtl := set_bit 15 (hTtl h)\<rparr>),
      WireLen = (\<lambda>m. 12 + sum_list (map (\<lambda>q. length (qName q) + 6) (mQuestion m)) +
        sum_list (map (\<lambda>r. 11 + sum_list (map option_size (rr_options r))) (mExtra m)))\<rparr>"

lemma example_opt_Some: "example_opt n rs = Some i \<Longrightarrow> n \<le> i \<and> i < n + length rs \<and> is_opt (rs ! (i - n))"
proof (induction n rs rule: example_opt.induct)
  case (2 n r rs)
  then show ?case by (cases "is_opt r") (auto simp: nth_Cons' Suc_diff_Suc)
qed simp

lemma example_opt_None: "example_opt n rs = None \<longleftrightarrow> \<not> list_ex is_opt rs"
  by (induction n rs rule: example_opt.induct) auto

lemma sum_list_update_nat:
  fixes xs :: "nat list"
  assumes "i < length xs"
  shows "sum_list (xs[i := v]) + xs ! i = sum_list xs + v"
  using assms by (induction xs arbitrary: i) (auto simp: nth_Cons split: nat.splits)

lemma example_len:
  assumes "has_opt m i"
  shows "WireLen example_lib (set_options i (os @ [EDNS0_PADDING p]) m) =
    WireLen example_lib (set_options i (os @ [EDNS0_PADDING []]) m) + length p"
proof -
  let ?w = "\<lambda>r. 11 + sum_list (map option_size (rr_options r))"
  have i: "i < length (mExtra m)" "is_opt (mExtra m ! i)" using assms by (auto simp: has_opt_def)
  have "sum_list (map ?w ((mExtra m)[i := set_rr_options (os @ [EDNS0_PADDING q]) (mExtra m ! i)])) +
      ?w (mExtra m ! i) = sum_list (map ?w (mExtra m)) + (15 + sum_list (map option_size os) + length q)"
    for q
    using sum_list_update_nat [of i "map ?w (mExtra m)"] i by (simp add: map_update)
  from this [of p] this [of "[]"] show ?thesis
    by (simp add: example_lib_def set_options_def)
qed

lemma example_edns0: "edns0_ok example_lib"
  unfolding edns0_ok_def
proof (intro conjI allI impI)
  fix m i assume "IsEdns0 example_lib m = Some i"
  then show "has_opt m i" using example_opt_Some [of 0 "mExtra m" i] by (simp add: example_lib_def has_opt_def)
next
  fix m assume "IsEdns0 example_lib m = None"
  then show "\<not> list_ex is_opt (mExtra m)" using example_opt_None [of 0] by (simp add: example_lib_def)
next
  fix m n d
  have "hRrtype (example_hdr n d) = TypeOPT" by (simp add: example_hdr_def)
  moreover have "SetEdns0 example_lib m n d = m\<lparr>mExtra := mExtra m @ [RR_OPT (example_hdr n d) []]\<rparr>"
    by (simp add: example_lib_def)
  ultimately show "\<exists>h. hRrtype h = TypeOPT \<and>
      SetEdns0 example_lib m n d = m\<lparr>mExtra := mExtra m @ [RR_OPT h []]\<rparr>" by blast
qed (simp add: example_lib_def)

lemma example_reply_to: "reply_to r rc (example_reply new_msg r rc)"
  by (simp add: reply_to_def example_reply_def new_msg_def)

lemma example_replies: "reply_ok example_lib"
  by (simp add: reply_ok_def example_lib_def example_reply_to)

lemma example_lib_ok: "dns_ok example_lib"
  unfolding dns_ok_def
proof (intro conjI)
  show "len_ok example_lib" unfolding len_ok_def using example_len by blast
qed (simp_all add: example_edns0 example_replies, simp_all add: fqdn_ok_def copy_ok_def example_lib_def)

end
