(* ===== verification/Ip_Numbers.thy ===== *)
theory Ip_Numbers
  imports Go_Net
begin

text \<open>
  IP addresses as numbers, and the networks an address is tested against, as pairs of a number and a
  prefix length.  The bit masks of package \<^verbatim>\<open>net\<close> are turned into divisions here, so that the address
  tests of the code can be compared with the address ranges they stand for.
\<close>

section \<open>Address ranges as numbers\<close>

text \<open>An address as a number, and the networks of RFC 1122, 1918, 3927, 4193, 4291, 5771 and 6598.\<close>

definition ip_value :: "ip \<Rightarrow> nat" where
  "ip_value a = foldl (\<lambda>v b. v * 256 + unat b) 0 a"

definition in_net :: "nat \<Rightarrow> nat \<Rightarrow> nat \<times> nat \<Rightarrow> bool" where
  "in_net w v nw = (v div 2 ^ (w - snd nw) = fst nw div 2 ^ (w - snd nw))"

definition private_nets4 :: "(nat \<times> nat) list" where
  "private_nets4 =
     [(ip_value [0, 0, 0, 0], 32), (ip_value [10, 0, 0, 0], 8), (ip_value [100, 64, 0, 0], 10),
      (ip_value [127, 0, 0, 0], 8), (ip_value [169, 254, 0, 0], 16), (ip_value [172, 16, 0, 0], 12),
      (ip_value [192, 168, 0, 0], 16), (ip_value [224, 0, 0, 0], 4)]"

definition private_nets6 :: "(nat \<times> nat) list" where
  "private_nets6 = [(0, 128), (1, 128), (0xFC * 2 ^ 120, 7), (0xFE8 * 2 ^ 116, 10), (0xFF * 2 ^ 120, 8)]"

lemma unat_and_not_mask: "unat ((w :: u8) AND NOT (mask n)) = unat w div 2 ^ n * 2 ^ n"
proof -
  have "w AND NOT (mask n) = push_bit n (drop_bit n w)"
    by (rule bit_eqI) (auto simp: bit_simps)
  moreover have "unat (push_bit n (drop_bit n w)) = take_bit 8 (push_bit n (drop_bit n (unat w)))"
    using unsigned_less [of w, where 'a = nat]
    by (simp add: unsigned_push_bit_eq unsigned_drop_bit_eq take_bit_nat_eq_self)
  moreover have "push_bit n (drop_bit n (unat w)) \<le> unat w"
    by (simp add: push_bit_eq_mult drop_bit_eq_div)
  then have "push_bit n (drop_bit n (unat w)) < 2 ^ 8"
    using unsigned_less [of w, where 'a = nat] by simp
  ultimately show ?thesis by (simp add: take_bit_nat_eq_self push_bit_eq_mult drop_bit_eq_div)
qed

lemma high_bits: "(w :: u8) AND NOT (mask n) = v \<longleftrightarrow> unat w div 2 ^ n * 2 ^ n = unat v"
  by (simp add: word_unat_eq_iff unat_and_not_mask)

lemma byte_masks:
  "(w :: u8) AND 0xF0 = 16 \<longleftrightarrow> unat w div 16 = 1"
  "w AND 0xF0 = 0xE0 \<longleftrightarrow> unat w div 16 = 14"
  "w AND 0xFE = 0xFC \<longleftrightarrow> unat w div 2 = 126"
  "w AND 0xC0 = 0x80 \<longleftrightarrow> unat w div 64 = 2"
  "w AND 192 = 64 \<longleftrightarrow> unat w div 64 = 1"
proof -
  have m: "(0xF0 :: u8) = NOT (mask 4)" "(0xFE :: u8) = NOT (mask 1)" "(0xC0 :: u8) = NOT (mask 6)"
    "(192 :: u8) = NOT (mask 6)"
    by (simp_all add: mask_eq_exp_minus_1)
  show "(w :: u8) AND 0xF0 = 16 \<longleftrightarrow> unat w div 16 = 1"
  "w AND 0xF0 = 0xE0 \<longleftrightarrow> unat w div 16 = 14"
  "w AND 0xFE = 0xFC \<longleftrightarrow> unat w div 2 = 126"
  "w AND 0xC0 = 0x80 \<longleftrightarrow> unat w div 64 = 2"
  "w AND 192 = 64 \<longleftrightarrow> unat w div 64 = 1"
    unfolding m high_bits by auto
qed

lemma div_head:
  fixes x r k :: nat
  shows "r < k \<Longrightarrow> (x * k + r) div k = x"
  by simp

lemma u8_less: "unat (w :: u8) < 256"
  using unsigned_less [of w, where 'a = nat] by simp

lemma ip_value_snoc: "ip_value (a @ [x]) = ip_value a * 256 + unat x"
  by (simp add: ip_value_def)

lemma digit_inj:
  fixes x y p q k :: nat
  assumes "x < k" "y < k"
  shows "p * k + x = q * k + y \<longleftrightarrow> p = q \<and> x = y"
proof
  assume eq: "p * k + x = q * k + y"
  then have "p = q" using div_head [OF assms(1), of p] div_head [OF assms(2), of q] by simp
  with eq show "p = q \<and> x = y" by simp
qed simp

lemma ip_value_inj: "length a = length b \<Longrightarrow> ip_value a = ip_value b \<longleftrightarrow> a = b"
proof (induction a arbitrary: b rule: rev_induct)
  case (snoc x a)
  then obtain b' y where b: "b = b' @ [y]" "length a = length b'" by (cases b rule: rev_cases) auto
  note digit_inj [OF u8_less [of x] u8_less [of y], of "ip_value a" "ip_value b'"]
  then show ?case using snoc.IH [OF b(2)] by (simp add: b ip_value_snoc word_unat_eq_iff)
qed simp

lemma ip_value_append: "ip_value (a @ b) = ip_value a * 256 ^ length b + ip_value b"
  by (induction b rule: rev_induct)
     (simp_all add: ip_value_snoc append_assoc [symmetric] algebra_simps del: append_assoc, simp add: ip_value_def)

lemma ip_value_less: "ip_value a < 256 ^ length a"
proof (induction a rule: rev_induct)
  case (snoc x a)
  then show ?case using u8_less [of x] by (simp add: ip_value_snoc)
qed (simp add: ip_value_def)

lemma ip_value_head: "ip_value (a @ b) div 256 ^ length b = ip_value a"
  unfolding ip_value_append by (rule div_head [OF ip_value_less])

text \<open>The leading bits of an address, from its leading bytes.\<close>

lemma ip_value_lead:
  fixes a0 a1 :: u8 and rest :: ip
  defines "v \<equiv> ip_value (a0 # a1 # rest)" and "k \<equiv> 8 * length rest"
  shows "v div 2 ^ (k + 8) = unat a0" "v div 2 ^ k = unat a0 * 256 + unat a1"
    "m \<le> 8 \<Longrightarrow> v div 2 ^ (k + 8 + m) = unat a0 div 2 ^ m"
    "m \<le> 8 \<Longrightarrow> v div 2 ^ (k + m) = (unat a0 * 256 + unat a1) div 2 ^ m"
proof -
  have p: "(256 :: nat) ^ length rest = 2 ^ k" "(256 :: nat) ^ length (a1 # rest) = 2 ^ (k + 8)"
    by (simp_all add: k_def power_mult power_add)
  show 1: "v div 2 ^ (k + 8) = unat a0"
    using ip_value_head [of "[a0]" "a1 # rest"] unfolding p by (simp add: v_def ip_value_def)
  show 2: "v div 2 ^ k = unat a0 * 256 + unat a1"
    using ip_value_head [of "[a0, a1]" rest] unfolding p by (simp add: v_def ip_value_def)
  show "v div 2 ^ (k + 8 + m) = unat a0 div 2 ^ m"
    unfolding power_add [of 2 "k + 8" m] by (simp only: div_mult2_eq 1)
  show "v div 2 ^ (k + m) = (unat a0 * 256 + unat a1) div 2 ^ m"
    unfolding power_add [of 2 k m] by (simp only: div_mult2_eq 2)
qed

lemma list4:
  assumes "length b = 4"
  obtains b0 b1 b2 b3 where "b = [b0, b1, b2, b3]"
  using assms by (auto simp: length_Suc_conv eval_nat_numeral)

lemma ranges4:
  fixes b0 b1 b2 b3 :: u8
  defines "v \<equiv> ip_value [b0, b1, b2, b3]"
  shows "v div 2 ^ 24 = unat b0" "v div 2 ^ 16 = unat b0 * 256 + unat b1"
    "v div 2 ^ 28 = unat b0 div 16" "v div 2 ^ 22 = (unat b0 * 256 + unat b1) div 64"
    "v div 2 ^ 20 = (unat b0 * 256 + unat b1) div 16"
  using ip_value_lead(1,2) [of b0 b1 "[b2, b3]"]
    ip_value_lead(3) [where ?a0.0 = b0 and ?a1.0 = b1 and rest = "[b2, b3]" and m = 4]
    ip_value_lead(4) [where ?a0.0 = b0 and ?a1.0 = b1 and rest = "[b2, b3]" and m = 4]
    ip_value_lead(4) [where ?a0.0 = b0 and ?a1.0 = b1 and rest = "[b2, b3]" and m = 6]
  by (simp_all add: v_def)

lemma prefix_digits:
  fixes x y :: nat
  assumes "y < 256"
  shows "(x * 256 + y) div 64 = 401 \<longleftrightarrow> x = 100 \<and> y div 64 = 1"
    "(x * 256 + y) div 16 = 2753 \<longleftrightarrow> x = 172 \<and> y div 16 = 1"
    "x * 256 + y = 43518 \<longleftrightarrow> x = 169 \<and> y = 254"
    "x * 256 + y = 49320 \<longleftrightarrow> x = 192 \<and> y = 168"
    "(x * 256 + y) div 64 = 1018 \<longleftrightarrow> x = 254 \<and> y div 64 = 2"
proof -
  have d: "(x * 256 + y) div 64 = x * 4 + y div 64" "(x * 256 + y) div 16 = x * 16 + y div 16"
    using div_mult_self1 [of 64 y "x * 4"] div_mult_self1 [of 16 y "x * 16"] by (simp_all add: ac_simps)
  have b: "y div 64 < 4" "y div 16 < 16" using assms by (simp_all add: less_mult_imp_div_less)
  show "(x * 256 + y) div 64 = 401 \<longleftrightarrow> x = 100 \<and> y div 64 = 1"
    "(x * 256 + y) div 16 = 2753 \<longleftrightarrow> x = 172 \<and> y div 16 = 1"
    "x * 256 + y = 43518 \<longleftrightarrow> x = 169 \<and> y = 254"
    "x * 256 + y = 49320 \<longleftrightarrow> x = 192 \<and> y = 168"
    "(x * 256 + y) div 64 = 1018 \<longleftrightarrow> x = 254 \<and> y div 64 = 2"
    unfolding d
    using digit_inj [OF b(1), of 1 x 100] digit_inj [OF b(2), of 1 x 172] digit_inj [OF b(1), of 2 x 254]
      digit_inj [OF assms, of 254 x 169] digit_inj [OF assms, of 168 x 192] by simp_all
qed

lemma in_net_mult: "m \<le> w \<Longrightarrow> in_net w v (k * 2 ^ m, w - m) \<longleftrightarrow> v div 2 ^ m = k"
  by (simp add: in_net_def)

lemma u8_consts:
  "(w :: u8) = 10 \<longleftrightarrow> unat w = 10" "w = 100 \<longleftrightarrow> unat w = 100" "w = 127 \<longleftrightarrow> unat w = 127"
  "w = 168 \<longleftrightarrow> unat w = 168" "w = 169 \<longleftrightarrow> unat w = 169" "w = 172 \<longleftrightarrow> unat w = 172"
  "w = 192 \<longleftrightarrow> unat w = 192" "w = 224 \<longleftrightarrow> unat w = 224" "w = 254 \<longleftrightarrow> unat w = 254"
  "w = 255 \<longleftrightarrow> unat w = 255"
  by (simp_all add: word_unat_eq_iff)

end
