(* ===== verification/Opsec.thy ===== *)
theory Opsec
  imports Dns_Msg Domain_Trie Ip_Numbers
begin

text \<open>
  \<^verbatim>\<open>internal/dns/opsec.go\<close>, lines 13 to 145: EDNS0 padding, 0x20 case randomisation, the classification
  of addresses and the DNS rebinding check.

  The random bytes that \<^verbatim>\<open>rand.Read\<close> fills the buffer with are an argument; an error of \<^verbatim>\<open>rand.Read\<close>,
  which the code ignores, leaves zeros there.  A nil \<^verbatim>\<open>net.IP\<close> is the empty list.
\<close>

section \<open>EDNS0 padding\<close>

text \<open>
  \<open>None\<close> is the panic of a nil pointer.  \<^verbatim>\<open>padOption\<close> is the last element of the option slice, written
  again through its pointer once the length is known.
\<close>

definition remove_padding :: "edns0 list \<Rightarrow> edns0 list" where
  "remove_padding = filter (\<lambda>x. option_code x \<noteq> EDNS0PADDING)"

text \<open>Lines 24 to 28: the OPT record to pad, added if there is none.\<close>

definition padding_target :: "dnslib \<Rightarrow> msg \<Rightarrow> msg \<times> nat option" where
  "padding_target lib req =
     (case IsEdns0 lib req of
        Some i \<Rightarrow> (req, Some i)
      | None \<Rightarrow> (let req = SetEdns0 lib req 1232 False in (req, IsEdns0 lib req)))"

text \<open>Lines 30 to 48, on the OPT record at \<open>i\<close>.\<close>

definition pad_options :: "dnslib \<Rightarrow> int \<Rightarrow> nat \<Rightarrow> msg \<Rightarrow> msg" where
  "pad_options lib blockSize i req =
     (let cleanOptions = remove_padding (get_options req i);
          req = set_options i (cleanOptions @ [EDNS0_PADDING []]) req;
          currentLen = int (WireLen lib req);
          rm = currentLen mod blockSize
      in if rm \<noteq> 0 then
           (let padLen = blockSize - rm;
                padded = EDNS0_PADDING (replicate (nat padLen) 0)
            in set_options i ((get_options req i)[length cleanOptions := padded]) req)
         else req)"

definition ApplyEDNS0Padding :: "dnslib \<Rightarrow> msg \<Rightarrow> int \<Rightarrow> msg option" where
  "ApplyEDNS0Padding lib req blockSize0 =
     (let blockSize = (if blockSize0 \<le> 0 then 128 else blockSize0);
          (req, opt) = padding_target lib req
      in (case opt of None \<Rightarrow> None | Some i \<Rightarrow> Some (pad_options lib blockSize i req)))"

section \<open>0x20 case randomisation\<close>

definition random_letter :: "u8 list \<Rightarrow> nat \<Rightarrow> char \<Rightarrow> char" where
  "random_letter randBytes i c =
     (if is_lower c \<or> is_upper c then
        (let byteIdx = i div 8; bitIdx = i mod 8;
             isUpper = (randBytes ! byteIdx) AND push_bit bitIdx 1 \<noteq> 0
         in if isUpper then clear_bit5 c else set_bit5 c)
      else c)"

definition Randomize0x20 :: "(nat \<Rightarrow> u8 list) \<Rightarrow> string \<Rightarrow> string" where
  "Randomize0x20 rand name =
     (if name = [] then name
      else
        (let randBytes = rand ((length name + 7) div 8)
         in map2 (random_letter randBytes) [0..<length name] name))"

definition Is0x20Match :: "string \<Rightarrow> string \<Rightarrow> bool" where
  "Is0x20Match sentQueryName receivedAnswerName \<longleftrightarrow> sentQueryName = receivedAnswerName"

section \<open>Addresses and rebinding\<close>

definition cgnat_ip :: ip where "cgnat_ip = [100, 64, 0, 0]"
definition cgnat_mask :: ip where "cgnat_mask = [255, 192, 0, 0]"

definition IsPrivateOrLocalIP :: "ip \<Rightarrow> bool" where
  "IsPrivateOrLocalIP a =
     (if a = [] then False
      else if IsLoopback a \<or> IsPrivate a \<or> IsLinkLocalUnicast a \<or> IsLinkLocalMulticast a \<or>
        IsMulticast a \<or> IsUnspecified a then True
      else
        (case to4 a of
           Some b \<Rightarrow> if ipnet4_contains cgnat_ip cgnat_mask b then True else False
         | None \<Rightarrow> False))"

definition pattern_allows :: "(string \<Rightarrow> string) \<Rightarrow> string \<Rightarrow> string \<Rightarrow> bool" where
  "pattern_allows ul d p =
     (let pat = to_lower ul (trim_suffix p ''.'') in
      if has_prefix pat ''*.'' then
        (let sfx = trim_prefix pat ''*.'' in d = sfx \<or> has_suffix d (''.'' @ sfx))
      else pat = d)"

definition IsAllowedLocalDomain :: "(string \<Rightarrow> string) \<Rightarrow> string \<Rightarrow> string list \<Rightarrow> bool" where
  "IsAllowedLocalDomain ul domain patterns =
     (let d = to_lower ul (trim_suffix domain ''.'') in list_ex (pattern_allows ul d) patterns)"

fun private_answer :: "rr \<Rightarrow> bool" where
  "private_answer (RR_A h a) = IsPrivateOrLocalIP a"
| "private_answer (RR_AAAA h a) = IsPrivateOrLocalIP a"
| "private_answer _ = False"

definition FilterDNSRebinding ::
  "(string \<Rightarrow> string) \<Rightarrow> msg option \<Rightarrow> string \<Rightarrow> string list \<Rightarrow> bool" where
  "FilterDNSRebinding ul resp0 domain allowedPatterns =
     (case resp0 of
        None \<Rightarrow> False
      | Some resp \<Rightarrow>
          if mAnswer resp = [] then False
          else if IsAllowedLocalDomain ul domain allowedPatterns then False
          else list_ex private_answer (mAnswer resp))"

section \<open>Padding, proved\<close>

definition pad_count :: "edns0 list \<Rightarrow> nat" where
  "pad_count os = length (filter (\<lambda>x. option_code x = EDNS0PADDING) os)"

lemma remove_padding_none: "pad_count (remove_padding os) = 0"
  by (simp add: pad_count_def remove_padding_def filter_empty_conv)

lemma remove_padding_idem [simp]: "remove_padding (remove_padding os) = remove_padding os"
  by (simp add: remove_padding_def)

lemma padding_target_cases:
  assumes "edns0_ok lib"
  obtains (old) i where "padding_target lib req = (req, Some i)" "has_opt req i" "IsEdns0 lib req = Some i"
  | (new) i h where "IsEdns0 lib req = None" "hRrtype h = TypeOPT"
      "padding_target lib req = (req\<lparr>mExtra := mExtra req @ [RR_OPT h []]\<rparr>, Some i)"
      "has_opt (req\<lparr>mExtra := mExtra req @ [RR_OPT h []]\<rparr>) i"
proof (cases "IsEdns0 lib req")
  case (Some i)
  then show ?thesis using old [of i] IsEdns0_Some [OF assms Some] by (simp add: padding_target_def)
next
  case None
  obtain i where i: "IsEdns0 lib (SetEdns0 lib req 1232 False) = Some i"
    by (rule IsEdns0_SetEdns0 [OF assms])
  obtain h where h: "hRrtype h = TypeOPT"
      "SetEdns0 lib req 1232 False = req\<lparr>mExtra := mExtra req @ [RR_OPT h []]\<rparr>"
    by (rule SetEdns0_extra [OF assms])
  from i have "padding_target lib req = (SetEdns0 lib req 1232 False, Some i)"
    using None by (simp add: padding_target_def Let_def)
  with None h IsEdns0_Some [OF assms i] show ?thesis using new [of h i] by simp
qed

lemma padding_length_aligned:
  fixes k b :: int
  assumes "0 < b"
  shows "(k + int (nat (b - k mod b))) mod b = 0"
proof -
  have "k mod b < b" using assms by simp
  then have "k + int (nat (b - k mod b)) = b * (k div b + 1)"
    using mult_div_mod_eq [of b k] by (simp add: algebra_simps)
  then show ?thesis by simp
qed

lemma pad_options_result:
  assumes "len_ok lib" "has_opt req i" "0 < bs"
  obtains pad where
    "pad_options lib bs i req =
       set_options i (remove_padding (get_options req i) @ [EDNS0_PADDING pad]) req"
    "int (WireLen lib (pad_options lib bs i req)) mod bs = 0"
    "int (length pad) < bs"
proof -
  define os where "os = remove_padding (get_options req i)"
  define base where "base = set_options i (os @ [EDNS0_PADDING []]) req"
  define k where "k = int (WireLen lib base)"
  have len: "WireLen lib (set_options i (os @ [EDNS0_PADDING p]) req) = WireLen lib base + length p" for p
    using assms(1,2) unfolding base_def len_ok_def by blast
  have get: "get_options base i = os @ [EDNS0_PADDING []]"
    using assms(2) by (simp add: base_def)
  show ?thesis
  proof (cases "k mod bs = 0")
    case True
    then have "pad_options lib bs i req = base"
      by (simp add: pad_options_def Let_def k_def base_def os_def)
    then show ?thesis using that [of "[]"] True assms(3) by (simp add: base_def os_def k_def)
  next
    case False
    let ?p = "replicate (nat (bs - k mod bs)) 0"
    have "pad_options lib bs i req = set_options i ((get_options base i)[length os := EDNS0_PADDING ?p]) base"
      using False by (simp add: pad_options_def Let_def k_def base_def os_def)
    then have *: "pad_options lib bs i req = set_options i (os @ [EDNS0_PADDING ?p]) req"
      by (simp add: get) (simp add: base_def)
    moreover have "int (WireLen lib (set_options i (os @ [EDNS0_PADDING ?p]) req)) mod bs = 0"
      using padding_length_aligned [OF assms(3), of k] by (simp only: len k_def length_replicate of_nat_add)
    moreover have "int (length ?p) < bs"
    proof -
      have "0 < k mod bs" using False pos_mod_sign [OF assms(3), of k] by linarith
      then show ?thesis using assms(3) by simp
    qed
    ultimately show ?thesis using that [of ?p] by (simp add: os_def)
  qed
qed

lemma padding_result:
  assumes "edns0_ok lib" "len_ok lib"
  obtains m0 i pad m where
    "ApplyEDNS0Padding lib req b = Some m"
    "m = set_options i (remove_padding (get_options m0 i) @ [EDNS0_PADDING pad]) m0"
    "int (WireLen lib m) mod (if b \<le> 0 then 128 else b) = 0"
    "int (length pad) < (if b \<le> 0 then 128 else b)" "has_opt m0 i"
    "m0 = req \<and> IsEdns0 lib req = Some i \<or>
     IsEdns0 lib req = None \<and> i = length (mExtra req) \<and> get_options m0 i = [] \<and>
     (\<exists>h. m0 = req\<lparr>mExtra := mExtra req @ [RR_OPT h []]\<rparr>)"
proof -
  define bs where "bs = (if b \<le> 0 then 128 else b)"
  have bs: "0 < bs" by (simp add: bs_def)
  from assms(1) show ?thesis
  proof (cases rule: padding_target_cases [where req = req])
    case (old i)
    obtain pad where "pad_options lib bs i req =
        set_options i (remove_padding (get_options req i) @ [EDNS0_PADDING pad]) req"
      "int (WireLen lib (pad_options lib bs i req)) mod bs = 0" "int (length pad) < bs"
      by (rule pad_options_result [OF assms(2) old(2) bs])
    note pad = this [unfolded bs_def]
    have "ApplyEDNS0Padding lib req b = Some (pad_options lib (if b \<le> 0 then 128 else b) i req)"
      by (simp add: ApplyEDNS0Padding_def Let_def old(1))
    from that [OF this pad old(2)] old(3)
    show ?thesis by blast
  next
    case (new i h)
    let ?m0 = "req\<lparr>mExtra := mExtra req @ [RR_OPT h []]\<rparr>"
    have "\<not> list_ex is_opt (mExtra req)" by (rule IsEdns0_None [OF assms(1) new(1)])
    then have i: "i = length (mExtra req)"
      using new(4) by (auto simp: has_opt_def nth_append list_ex_iff split: if_splits)
    obtain pad where "pad_options lib bs i ?m0 =
        set_options i (remove_padding (get_options ?m0 i) @ [EDNS0_PADDING pad]) ?m0"
      "int (WireLen lib (pad_options lib bs i ?m0)) mod bs = 0" "int (length pad) < bs"
      by (rule pad_options_result [OF assms(2) new(4) bs])
    note pad = this [unfolded bs_def]
    have "get_options ?m0 i = []" by (simp add: i get_options_def)
    moreover have "ApplyEDNS0Padding lib req b = Some (pad_options lib (if b \<le> 0 then 128 else b) i ?m0)"
      by (simp add: ApplyEDNS0Padding_def Let_def new(3))
    ultimately show ?thesis
      using that [OF _ pad new(4)] new(1) i by blast
  qed
qed

section \<open>Case randomisation, proved\<close>

lemma and_bit_u8: "k < 8 \<Longrightarrow> (w :: u8) AND push_bit k 1 \<noteq> 0 \<longleftrightarrow> bit w k"
  by (simp add: push_bit_of_1 and_exp_eq_0_iff_not_bit)

lemma length_Randomize0x20 [simp]: "length (Randomize0x20 rand name) = length name"
  by (simp add: Randomize0x20_def)

lemma Randomize0x20_nth:
  "i < length name \<Longrightarrow>
     Randomize0x20 rand name ! i = random_letter (rand ((length name + 7) div 8)) i (name ! i)"
  by (auto simp: Randomize0x20_def Let_def)

lemma random_letter_lower: "lower_byte (random_letter rs i c) = lower_byte c"
  by (auto simp: random_letter_def Let_def lower_letter_bit5)

lemma map_lower_Randomize0x20 [simp]: "map lower_byte (Randomize0x20 rand name) = map lower_byte name"
  by (rule nth_equalityI) (simp_all add: Randomize0x20_nth random_letter_lower)

lemma not_upper_and_lower: "\<not> (is_upper c \<and> is_lower c)"
  by (simp add: is_upper_def is_lower_def)

lemma random_letter_bit:
  "is_lower c \<or> is_upper c \<Longrightarrow> is_upper (random_letter rs i c) = bit (rs ! (i div 8)) (i mod 8)"
proof -
  assume c: "is_lower c \<or> is_upper c"
  have b: "(rs ! (i div 8) AND push_bit (i mod 8) 1 \<noteq> 0) = bit (rs ! (i div 8)) (i mod 8)"
    by (rule and_bit_u8) simp
  have "is_upper (clear_bit5 c)" "\<not> is_upper (set_bit5 c)"
    using c letter_clear_bit5 [of c] letter_set_bit5 [of c] not_upper_and_lower [of "set_bit5 c"] by auto
  then show ?thesis unfolding random_letter_def Let_def b using c by simp
qed

lemma same_letter:
  "lower_byte c = lower_byte d \<Longrightarrow> is_lower c \<or> is_upper c \<Longrightarrow> is_upper c = is_upper d \<Longrightarrow> c = d"
  by (cases c; cases d) (auto simp: lower_byte_def is_upper_Char is_lower_Char split: if_splits)

lemma lower_byte_letter: "is_lower (lower_byte c) \<longleftrightarrow> is_lower c \<or> is_upper c"
  by (cases c) (auto simp: lower_byte_def is_upper_Char is_lower_Char)

lemma bits_u8: "\<exists>w :: u8. \<forall>k < 8. bit w k = P k"
proof (intro exI allI impI)
  fix k :: nat assume "k < 8"
  then show "bit (horner_sum of_bool 2 (map P [0..<8]) :: u8) k = P k"
    by (simp add: bit_horner_sum_bit_word_iff)
qed

lemma bytes_for: "\<exists>rs :: u8 list. length rs = (n + 7) div 8 \<and> (\<forall>i < n. bit (rs ! (i div 8)) (i mod 8) = P i)"
proof -
  obtain w :: "nat \<Rightarrow> u8" where w: "\<And>j k. k < 8 \<Longrightarrow> bit (w j) k = P (8 * j + k)"
    using bits_u8 [of "\<lambda>k. P (8 * j + k)" for j] by metis
  have "bit (map w [0..<(n + 7) div 8] ! (i div 8)) (i mod 8) = P i" if "i < n" for i
    using that w [of "i mod 8" "i div 8"] by (simp add: div_less_iff_less_mult less_mult_imp_div_less)
  then show ?thesis by (intro exI [of _ "map w [0..<(n + 7) div 8]"]) simp
qed

section \<open>Address classification, proved\<close>

lemma to4_length: "to4 a = Some b \<Longrightarrow> length b = 4"
  by (auto simp: to4_def split: if_splits)

lemma zero_not_mapped: "take 12 IPv6zero \<noteq> v4in6_prefix"
  by code_simp

lemma unspecified4:
  assumes "to4 a = Some b"
  shows "IsUnspecified a \<longleftrightarrow> b = [0, 0, 0, 0]"
proof (cases "length a = 4")
  case True
  then have "b = a" using assms by (simp add: to4_def)
  moreover have "\<not> ip_equal a IPv6zero"
    using True zero_not_mapped by (simp add: ip_equal_def IPv6zero_def)
  moreover have "ip_equal a IPv4zero \<longleftrightarrow> a = [0, 0, 0, 0]"
    using True by (simp add: ip_equal_def IPv4zero_def v4in6_prefix_def)
  ultimately show ?thesis by (simp add: IsUnspecified_def)
next
  case False
  then have a: "length a = 16" "take 12 a = v4in6_prefix" "b = drop 12 a"
    using assms by (auto simp: to4_def split: if_splits)
  then have ab: "a = v4in6_prefix @ b" by (metis append_take_drop_id)
  have "\<not> ip_equal a IPv6zero"
    using a(1,2) zero_not_mapped by (auto simp: ip_equal_def IPv6zero_def)
  moreover have "length IPv4zero = 16" by (simp add: IPv4zero_def v4in6_prefix_def)
  then have "ip_equal a IPv4zero \<longleftrightarrow> a = IPv4zero" using a(1) by (simp add: ip_equal_def)
  ultimately show ?thesis by (simp add: IsUnspecified_def IPv4zero_def ab)
qed

lemma and_255: "(w :: u8) AND 255 = w"
proof -
  have "(255 :: u8) = - 1" by simp
  then show ?thesis by (simp only: and.right_neutral)
qed

lemma cgnat_bytes:
  "ipnet4_contains cgnat_ip cgnat_mask [b0, b1, b2, b3] \<longleftrightarrow> b0 = 100 \<and> b1 AND 192 = 64"
proof -
  have "ipnet4_contains cgnat_ip cgnat_mask [b0, b1, b2, b3] \<longleftrightarrow>
      100 = b0 AND 255 \<and> 64 = b1 AND 192"
    by (simp add: ipnet4_contains_def cgnat_ip_def cgnat_mask_def to4_def All_less_Suc) auto
  then show ?thesis unfolding and_255 by auto
qed

lemma private_bytes4:
  assumes "to4 a = Some [b0, b1, b2, b3]"
  shows "IsPrivateOrLocalIP a \<longleftrightarrow>
    b0 = 127 \<or> b0 = 10 \<or> (b0 = 172 \<and> b1 AND 0xF0 = 16) \<or> (b0 = 192 \<and> b1 = 168) \<or>
    (b0 = 169 \<and> b1 = 254) \<or> (b0 = 224 \<and> b1 = 0 \<and> b2 = 0) \<or> b0 AND 0xF0 = 0xE0 \<or>
    [b0, b1, b2, b3] = [0, 0, 0, 0] \<or> (b0 = 100 \<and> b1 AND 192 = 64)"
proof -
  have "a \<noteq> []" using assms by (auto simp: to4_def)
  moreover have "ipnet4_contains cgnat_ip cgnat_mask [b0, b1, b2, b3] \<longleftrightarrow> b0 = 100 \<and> b1 AND 192 = 64"
    by (rule cgnat_bytes)
  ultimately show ?thesis
    using unspecified4 [OF assms]
    by (simp add: IsPrivateOrLocalIP_def IsLoopback_def IsPrivate_def IsLinkLocalUnicast_def
        IsLinkLocalMulticast_def IsMulticast_def assms)
qed

lemma ip_value_zero: "ip_value a = 0 \<longleftrightarrow> a = replicate (length a) 0"
proof -
  have "ip_value (replicate n 0) = 0" for n by (induction n) (simp_all add: ip_value_def)
  then show ?thesis using ip_value_inj [of a "replicate (length a) 0"] by simp
qed

lemma private4:
  assumes "to4 a = Some b"
  shows "IsPrivateOrLocalIP a \<longleftrightarrow> list_ex (in_net 32 (ip_value b)) private_nets4"
proof -
  obtain b0 b1 b2 b3 where b: "b = [b0, b1, b2, b3]" using to4_length [OF assms] by (rule list4)
  have zero: "ip_value b = 0 \<longleftrightarrow> b = [0, 0, 0, 0]"
    using ip_value_zero [of b] by (simp add: b)
  have nets: "private_nets4 = [(0 * 2 ^ 0, 32 - 0), (10 * 2 ^ 24, 32 - 24), (401 * 2 ^ 22, 32 - 22),
      (127 * 2 ^ 24, 32 - 24), (43518 * 2 ^ 16, 32 - 16), (2753 * 2 ^ 20, 32 - 20),
      (49320 * 2 ^ 16, 32 - 16), (14 * 2 ^ 28, 32 - 28)]"
    by (simp add: private_nets4_def ip_value_def)
  have v: "ip_value b div 2 ^ 0 = 0 \<longleftrightarrow> b = [0, 0, 0, 0]" by (simp add: zero)
  have "list_ex (in_net 32 (ip_value b)) private_nets4 \<longleftrightarrow>
      b = [0, 0, 0, 0] \<or> unat b0 = 10 \<or> (unat b0 = 100 \<and> unat b1 div 64 = 1) \<or> unat b0 = 127 \<or>
      (unat b0 = 169 \<and> unat b1 = 254) \<or> (unat b0 = 172 \<and> unat b1 div 16 = 1) \<or>
      (unat b0 = 192 \<and> unat b1 = 168) \<or> unat b0 div 16 = 14"
    unfolding nets list_ex_iff list.set bex_simps
    using ranges4 [of b0 b1 b2 b3, folded b] v prefix_digits [OF u8_less [of b1], of "unat b0"]
    by (simp only: in_net_mult le_numeral_simps zero_le numeral_le_iff le_num_simps less_num_simps) blast
  moreover note private_bytes4 [OF assms [unfolded b], unfolded byte_masks]
  moreover have "unat b0 = 224 \<Longrightarrow> unat b0 div 16 = 14" by simp
  ultimately show ?thesis
    unfolding u8_consts b by blast
qed

lemma list16:
  assumes "length b = 16"
  obtains b0 b1 rest where "b = b0 # b1 # rest" "length rest = 14"
  using assms by (cases b; cases "tl b") auto

lemma private_bytes6:
  assumes "to4 (b0 # b1 # rest) = None" "length rest = 14"
  shows "IsPrivateOrLocalIP (b0 # b1 # rest) \<longleftrightarrow>
    b0 # b1 # rest = IPv6loopback \<or> b0 AND 0xFE = 0xFC \<or> (b0 = 0xFE \<and> b1 AND 0xC0 = 0x80) \<or>
    (b0 = 0xFF \<and> b1 AND 0x0F = 0x02) \<or> b0 = 0xFF \<or> b0 # b1 # rest = IPv6zero"
proof -
  have len: "length IPv6loopback = 16" "length IPv6zero = 16" "length IPv4zero = 16"
    by (simp_all add: IPv6loopback_def IPv6zero_def IPv4zero_def v4in6_prefix_def)
  have "to4 IPv4zero \<noteq> None" by (simp add: to4_def IPv4zero_def v4in6_prefix_def)
  then have "b0 # b1 # rest \<noteq> IPv4zero" using assms(1) by metis
  then have "IsUnspecified (b0 # b1 # rest) \<longleftrightarrow> b0 # b1 # rest = IPv6zero"
    using assms(2) len by (simp add: IsUnspecified_def ip_equal_def)
  moreover have "IsLoopback (b0 # b1 # rest) \<longleftrightarrow> b0 # b1 # rest = IPv6loopback"
    using assms len by (simp add: IsLoopback_def ip_equal_def)
  ultimately show ?thesis
    by (simp add: IsPrivateOrLocalIP_def IsPrivate_def IsLinkLocalUnicast_def
        IsLinkLocalMulticast_def IsMulticast_def assms)
qed

lemma private6:
  assumes "to4 a = None" "length a = 16"
  shows "IsPrivateOrLocalIP a \<longleftrightarrow> list_ex (in_net 128 (ip_value a)) private_nets6"
proof -
  obtain b0 b1 rest where a: "a = b0 # b1 # rest" "length rest = 14" using assms(2) by (rule list16)
  have zero: "ip_value a = 0 \<longleftrightarrow> a = IPv6zero"
    using ip_value_zero [of a] assms(2) by (simp add: IPv6zero_def)
  have "ip_value IPv6loopback = 1" "length IPv6loopback = 16"
    by code_simp+
  then have one: "ip_value a = 1 \<longleftrightarrow> a = IPv6loopback"
    using ip_value_inj [of a IPv6loopback] assms(2) by simp
  have lead: "ip_value a div 2 ^ 120 = unat b0" "ip_value a div 2 ^ 121 = unat b0 div 2"
    "ip_value a div 2 ^ 118 = (unat b0 * 256 + unat b1) div 64"
    using ip_value_lead(1) [of b0 b1 rest]
      ip_value_lead(3) [where ?a0.0 = b0 and ?a1.0 = b1 and rest = rest and m = 1]
      ip_value_lead(4) [where ?a0.0 = b0 and ?a1.0 = b1 and rest = rest and m = 6] a(2)
    by (simp_all add: a(1))
  have nets: "private_nets6 = [(0, 128), (1, 128), (126 * 2 ^ 121, 7), (1018 * 2 ^ 118, 10), (255 * 2 ^ 120, 8)]"
    by (simp add: private_nets6_def)
  have "list_ex (in_net 128 (ip_value a)) private_nets6 \<longleftrightarrow>
      a = IPv6zero \<or> a = IPv6loopback \<or> unat b0 div 2 = 126 \<or>
      (unat b0 = 254 \<and> unat b1 div 64 = 2) \<or> unat b0 = 255"
    using lead prefix_digits(5) [OF u8_less [of b1], of "unat b0"] zero one
    unfolding nets by (simp add: in_net_def)
  moreover note private_bytes6 [OF assms(1) [unfolded a(1)] a(2), unfolded byte_masks]
  ultimately show ?thesis
    unfolding u8_consts a(1) by blast
qed

lemma private_other: "to4 a = None \<Longrightarrow> length a \<noteq> 16 \<Longrightarrow> \<not> IsPrivateOrLocalIP a"
proof -
  assume a: "to4 a = None" "length a \<noteq> 16"
  then have "length a \<noteq> 4" by (auto simp: to4_def)
  moreover have "length IPv6loopback = 16" "length IPv6zero = 16" "length IPv4zero = 16"
    by (simp_all add: IPv6loopback_def IPv6zero_def IPv4zero_def v4in6_prefix_def)
  ultimately have "\<not> ip_equal a IPv6loopback" "\<not> ip_equal a IPv6zero" "\<not> ip_equal a IPv4zero"
    using a(2) by (auto simp: ip_equal_def)
  with a show ?thesis
    by (simp add: IsPrivateOrLocalIP_def IsLoopback_def IsPrivate_def IsLinkLocalUnicast_def
        IsLinkLocalMulticast_def IsMulticast_def IsUnspecified_def)
qed

section \<open>Local domains\<close>

text \<open>A pattern list as rules of a domain trie: a wildcard pattern is a wildcard rule.\<close>

fun pattern_text :: "string \<times> bool \<Rightarrow> string" where
  "pattern_text (d, wild) = (if wild then ''*.'' @ d else d)"

lemma pattern_allows_host:
  assumes "host_name d"
  shows "pattern_allows ul q (pattern_text (d, wild)) \<longleftrightarrow> q = d \<or> wild \<and> suffix (''.'' @ d) q"
proof -
  have "to_lower ul (trim_suffix d ''.'') = d"
    using assms dotted_no_trailing_dot [of d]
    by (simp add: host_name_def trim_suffix_id to_lower_plain)
  moreover have "to_lower ul (trim_suffix (''*.'' @ d) ''.'') = ''*.'' @ d"
  proof -
    have "\<not> suffix ''.'' (''*.'' @ d)" "plain (''*.'' @ d)" "map lower_byte (''*.'' @ d) = ''*.'' @ d"
      using assms dotted_no_trailing_dot dotted_nonempty
      by (auto simp: host_name_def suffix_dot_iff plain_byte_def byte_of_Char lower_byte_def is_upper_Char)
    then show ?thesis by (simp only: trim_suffix_id to_lower_plain not_False_eq_True)
  qed
  moreover have "\<not> has_prefix d ''*.''" using assms by (simp add: host_name_def has_prefix_def)
  moreover have "has_prefix (''*.'' @ d) ''*.''" by (simp add: has_prefix_def)
  moreover have "trim_prefix (''*.'' @ d) ''*.'' = d" by (rule trim_prefix_append)
  ultimately show ?thesis
    by (auto simp: pattern_allows_def Let_def has_suffix_def simp del: append_Cons)
qed

lemma query_lower:
  assumes "host_name q" "x \<in> {q, q @ ''.''}"
  shows "to_lower ul (trim_suffix x ''.'') = q"
proof -
  have q: "\<not> suffix ''.'' q" "plain q" "map lower_byte q = q"
    using assms(1) dotted_no_trailing_dot [of q] by (simp_all add: host_name_def)
  have "trim_suffix x ''.'' = q"
    using assms(2) trim_suffix_id [OF q(1)] trim_suffix_append [of q "''.''"] by blast
  then show ?thesis using q(2,3) by (simp only: to_lower_plain)
qed

section \<open>Properties\<close>

text \<open>
  C28. Padding reaches its target: it never fails on a message, and the wire length of the padded query is a
  multiple of the block size (128 if the configured one is not positive).
\<close>

theorem padding_aligned:
  assumes "edns0_ok lib" "len_ok lib"
  shows "\<exists>m. ApplyEDNS0Padding lib req b = Some m \<and>
    int (WireLen lib m) mod (if b \<le> 0 then 128 else b) = 0"
proof -
  obtain m where "ApplyEDNS0Padding lib req b = Some m"
    "int (WireLen lib m) mod (if b \<le> 0 then 128 else b) = 0"
    by (rule padding_result [OF assms, of req b])
  then show ?thesis by (intro exI conjI)
qed

lemma padding_aligned_witness:
  "\<exists>m. ApplyEDNS0Padding example_lib new_msg 128 = Some m \<and> int (WireLen example_lib m) mod 128 = 0"
  using padding_aligned [of example_lib new_msg 128] example_lib_ok by (simp add: dns_ok_def)

text \<open>
  Padding changes nothing else: the padded message is the request with one change, the options of one
  OPT record, the one the request has or one appended to it; the options that are not padding stay
  in their order, the old padding goes, and one padding option of less than a block comes last.
\<close>

theorem padding_changes_only_padding:
  assumes "edns0_ok lib" "len_ok lib"
  shows "\<exists>m0 i pad.
    ApplyEDNS0Padding lib req b =
      Some (set_options i (filter (\<lambda>x. option_code x \<noteq> EDNS0PADDING) (get_options m0 i) @
        [EDNS0_PADDING pad]) m0) \<and>
    int (length pad) < (if b \<le> 0 then 128 else b) \<and> has_opt m0 i \<and>
    (m0 = req \<and> IsEdns0 lib req = Some i \<or>
     IsEdns0 lib req = None \<and> (\<exists>h. m0 = req\<lparr>mExtra := mExtra req @ [RR_OPT h []]\<rparr>))"
proof -
  obtain m0 i pad m where *: "ApplyEDNS0Padding lib req b = Some m"
    "m = set_options i (remove_padding (get_options m0 i) @ [EDNS0_PADDING pad]) m0"
    "int (length pad) < (if b \<le> 0 then 128 else b)" "has_opt m0 i"
    "m0 = req \<and> IsEdns0 lib req = Some i \<or>
     IsEdns0 lib req = None \<and> i = length (mExtra req) \<and> get_options m0 i = [] \<and>
     (\<exists>h. m0 = req\<lparr>mExtra := mExtra req @ [RR_OPT h []]\<rparr>)"
    by (rule padding_result [OF assms, of req b])
  then have "m0 = req \<and> IsEdns0 lib req = Some i \<or>
      IsEdns0 lib req = None \<and> (\<exists>h. m0 = req\<lparr>mExtra := mExtra req @ [RR_OPT h []]\<rparr>)" by blast
  with *(1-4) show ?thesis
    unfolding remove_padding_def by (intro exI [of _ m0] exI [of _ i] exI [of _ pad]) simp
qed

lemma padding_changes_only_padding_witness:
  "\<exists>m0 i pad.
    ApplyEDNS0Padding example_lib new_msg 64 =
      Some (set_options i (filter (\<lambda>x. option_code x \<noteq> EDNS0PADDING) (get_options m0 i) @
        [EDNS0_PADDING pad]) m0) \<and>
    int (length pad) < 64 \<and> has_opt m0 i"
  using padding_changes_only_padding [of example_lib new_msg 64] example_lib_ok
  by (simp add: dns_ok_def) blast

text \<open>
  Randomising the case of a name changes nothing but the case of its ASCII letters, whatever the random
  bytes are, so that the name the upstream server resolves is the one the client asked for: the
  filter sees the same name.
\<close>

theorem randomize_keeps_name:
  "map lower_byte (Randomize0x20 rand name) = map lower_byte name \<and>
   (\<forall>i. i < length name \<and> \<not> is_lower (name ! i) \<and> \<not> is_upper (name ! i) \<longrightarrow>
      Randomize0x20 rand name ! i = name ! i) \<and>
   (plain name \<longrightarrow> to_lower ul (Randomize0x20 rand name) = to_lower ul name)"
proof (intro conjI allI impI)
  fix i assume i: "i < length name \<and> \<not> is_lower (name ! i) \<and> \<not> is_upper (name ! i)"
  then show "Randomize0x20 rand name ! i = name ! i"
    by (simp add: Randomize0x20_nth random_letter_def)
next
  assume "plain name"
  then have "is_ascii name" by (rule plain_ascii)
  moreover have "is_ascii (Randomize0x20 rand name) = is_ascii name"
    using lower_byte_ascii map_lower_Randomize0x20 [of rand name]
    unfolding is_ascii_def list_all_length length_Randomize0x20 by (metis nth_map length_Randomize0x20)
  ultimately show "to_lower ul (Randomize0x20 rand name) = to_lower ul name"
    by (simp add: to_lower_def)
qed simp

lemma randomize_keeps_name_witness:
  "to_lower id (Randomize0x20 (\<lambda>n. replicate n 0x55) ''example.com'') = ''example.com''"
proof -
  have h: "plain ''example.com''" by (simp add: plain_byte_def byte_of_Char)
  then have "to_lower id ''example.com'' = ''example.com''"
    by (simp add: to_lower_plain lower_byte_def is_upper_Char)
  then show ?thesis
    using randomize_keeps_name [of "\<lambda>n. replicate n 0x55" "''example.com''" id] h by simp
qed

text \<open>
  The randomisation has full entropy: every casing of a name is what some random bytes, as many as the
  code draws, make of it.
\<close>

theorem randomize_reaches_every_casing:
  assumes "map lower_byte name' = map lower_byte name"
  shows "\<exists>bytes. length bytes = (length name + 7) div 8 \<and> Randomize0x20 (\<lambda>n. bytes) name = name'"
proof -
  have len: "length name' = length name" using assms map_eq_imp_length_eq by blast
  obtain bytes :: "u8 list" where bytes: "length bytes = (length name + 7) div 8"
    "\<And>i. i < length name \<Longrightarrow> bit (bytes ! (i div 8)) (i mod 8) = is_upper (name' ! i)"
    using bytes_for [of "length name" "\<lambda>i. is_upper (name' ! i)"] by blast
  have "Randomize0x20 (\<lambda>n. bytes) name ! i = name' ! i" if i: "i < length name" for i
  proof -
    have low: "lower_byte (name' ! i) = lower_byte (name ! i)"
      using assms i len by (metis nth_map)
    show ?thesis
    proof (cases "is_lower (name ! i) \<or> is_upper (name ! i)")
      case True
      let ?c = "random_letter bytes i (name ! i)"
      have "lower_byte ?c = lower_byte (name' ! i)" by (simp add: random_letter_lower low)
      moreover have "is_lower ?c \<or> is_upper ?c"
        using True lower_byte_letter random_letter_lower by metis
      moreover have "is_upper ?c = is_upper (name' ! i)"
        using random_letter_bit [OF True] bytes(2) [OF i] by simp
      ultimately have "?c = name' ! i" by (rule same_letter)
      then show ?thesis by (simp add: Randomize0x20_nth i)
    next
      case False
      then have "\<not> is_upper (name' ! i)" using low lower_byte_letter by metis
      then show ?thesis
        using False low by (simp add: Randomize0x20_nth i random_letter_def lower_byte_def)
    qed
  qed
  then have "Randomize0x20 (\<lambda>n. bytes) name = name'" using len by (intro nth_equalityI) simp_all
  with bytes(1) show ?thesis by blast
qed

lemma randomize_reaches_every_casing_witness:
  "\<exists>bytes. length bytes = 2 \<and> Randomize0x20 (\<lambda>n. bytes) ''google.com'' = ''gOoGlE.cOm''"
  using randomize_reaches_every_casing [of "''gOoGlE.cOm''" "''google.com''"]
  by (simp add: lower_byte_def is_upper_Char)

text \<open>
  C27. The addresses that count as private or local are exactly these networks, for an IPv4 address in either
  of its representations (so that an IPv4-mapped IPv6 address does not slip through) and for a native
  IPv6 address: \<^verbatim>\<open>0.0.0.0\<close>, \<^verbatim>\<open>10/8\<close>, \<^verbatim>\<open>100.64/10\<close>, \<^verbatim>\<open>127/8\<close>, \<^verbatim>\<open>169.254/16\<close>, \<^verbatim>\<open>172.16/12\<close>, \<^verbatim>\<open>192.168/16\<close>,
  \<^verbatim>\<open>224/4\<close>; \<^verbatim>\<open>::\<close>, \<^verbatim>\<open>::1\<close>, \<^verbatim>\<open>fc00::/7\<close>, \<^verbatim>\<open>fe80::/10\<close>, \<^verbatim>\<open>ff00::/8\<close>.
\<close>

theorem private_address_ranges:
  "IsPrivateOrLocalIP a =
     (case to4 a of
        Some b \<Rightarrow> list_ex (in_net 32 (ip_value b)) private_nets4
      | None \<Rightarrow> length a = 16 \<and> list_ex (in_net 128 (ip_value a)) private_nets6)"
  using private4 [of a] private6 [of a] private_other [of a] by (auto split: option.split)

text \<open>
  The local-domain patterns and the filter's domain rules agree on what a pattern covers: an answer for a
  name may carry private addresses exactly when a trie with the patterns as rules matches the name,
  with its final dot or without.
\<close>

theorem local_domains_agree_with_trie:
  assumes "\<forall>x \<in> set rs. host_name (fst x)" "host_name q" "x \<in> {q, q @ ''.''}"
  shows "IsAllowedLocalDomain ul x (map pattern_text rs) =
    Matches ul (fold (insert_rule ul) rs NewDomainTrie) x"
proof -
  have "list_ex (pattern_allows ul q) (map pattern_text rs) \<longleftrightarrow> (\<exists>r \<in> set rs. rule_covers ul r q)"
  proof -
    have "pattern_allows ul q (pattern_text r) = rule_covers ul r q" if "r \<in> set rs" for r
    proof -
      obtain d w where r: "r = (d, w)" by (cases r)
      then have d: "host_name d" using assms(1) that by fastforce
      show ?thesis unfolding r pattern_allows_host [OF d] rule_covers_host [OF d assms(2)] ..
    qed
    then show ?thesis by (simp add: list_ex_iff)
  qed
  moreover have "normalizeDomain ul x = normalizeDomain ul q"
    using assms(2,3) normalize_host normalize_fqdn by auto
  then have "Matches ul t x = Matches ul t q" for t by (simp add: Matches_def)
  moreover have "Matches ul (fold (insert_rule ul) rs NewDomainTrie) q \<longleftrightarrow>
      (\<exists>r \<in> set rs. rule_covers ul r q)" by (rule trie.mem_fold_empty)
  ultimately show ?thesis
    unfolding IsAllowedLocalDomain_def Let_def query_lower [OF assms(2,3), of ul] by simp
qed

lemma local_domains_agree_with_trie_witness:
  "IsAllowedLocalDomain id ''nas.lan.'' [''*.lan''] =
   Matches id (fold (insert_rule id) [(''lan'', True)] NewDomainTrie) ''nas.lan.''"
proof -
  have h: "host_name ''lan''" "host_name ''nas.lan''"
    by (simp_all add: host_name_def dotted_def plain_byte_def byte_of_Char lower_byte_def is_upper_Char)
  have "IsAllowedLocalDomain id ''nas.lan.'' (map pattern_text [(''lan'', True)]) =
      Matches id (fold (insert_rule id) [(''lan'', True)] NewDomainTrie) ''nas.lan.''"
    by (rule local_domains_agree_with_trie [where q = "''nas.lan''"]) (use h in simp_all)
  then show ?thesis by (simp only: list.map pattern_text.simps if_True append.simps)
qed

end
