(* ===== verification/Message_Store.thy ===== *)
theory Message_Store
  imports Go_Prelude
begin

text \<open>
  The contract between the query handler and the response cache: a lookup can only return what was put
  under the same key, in a form that is \<open>served\<close> from it, and no operation makes the store hold
  anything but what was put.  What follows for every sequence of operations is proved here once; the
  interpretation is in the theory of the cache.
\<close>

datatype ('q, 'm) store_op = Lookup int 'q | Put int 'q 'm

locale message_store =
  fixes get :: "int \<Rightarrow> 'q \<Rightarrow> 's \<Rightarrow> 'm option \<times> 's"
    and put :: "int \<Rightarrow> 'q \<Rightarrow> 'm \<Rightarrow> 's \<Rightarrow> 's"
    and inv :: "'s \<Rightarrow> bool"
    and key :: "'q \<Rightarrow> 'k option"
    and holds :: "'s \<Rightarrow> 'k \<Rightarrow> 'e \<Rightarrow> bool"
    and made :: "int \<Rightarrow> 'q \<Rightarrow> 'm \<Rightarrow> 'e \<Rightarrow> bool"
    and served :: "int \<Rightarrow> 'q \<Rightarrow> 'e \<Rightarrow> 'm \<Rightarrow> bool"
  assumes inv_get: "inv s \<Longrightarrow> inv (snd (get now q s))"
    and inv_put: "inv s \<Longrightarrow> inv (put now q m s)"
    and hit: "inv s \<Longrightarrow> fst (get now q s) = Some r \<Longrightarrow>
      \<exists>k e. key q = Some k \<and> holds s k e \<and> served now q e r"
    and holds_get: "inv s \<Longrightarrow> holds (snd (get now q s)) k e \<Longrightarrow> holds s k e"
    and holds_put: "inv s \<Longrightarrow> holds (put now q m s) k e \<Longrightarrow>
      holds s k e \<or> key q = Some k \<and> made now q m e"
begin

fun run :: "('q, 'm) store_op list \<Rightarrow> 's \<Rightarrow> 's" where
  "run [] s = s"
| "run (Lookup now q # ops) s = run ops (snd (get now q s))"
| "run (Put now q m # ops) s = run ops (put now q m s)"

lemma run_inv: "inv s \<Longrightarrow> inv (run ops s)"
  by (induction ops s rule: run.induct) (auto simp: inv_get inv_put)

lemma run_holds:
  "inv s \<Longrightarrow> holds (run ops s) k e \<Longrightarrow>
     holds s k e \<or> (\<exists>t q m. Put t q m \<in> set ops \<and> key q = Some k \<and> made t q m e)"
proof (induction ops s rule: run.induct)
  case (2 now q ops s)
  then show ?case using holds_get inv_get by fastforce
next
  case (3 now q m ops s)
  then have "holds (put now q m s) k e \<or>
      (\<exists>t q m. Put t q m \<in> set ops \<and> key q = Some k \<and> made t q m e)"
    by (simp add: inv_put)
  then show ?case using holds_put [OF 3(2), of now q m k e] by fastforce
qed simp

text \<open>A hit after any operations on an empty store comes from a put with the key of the query.\<close>

lemma hit_origin:
  assumes "inv s" "\<And>k e. \<not> holds s k e" "fst (get now q (run ops s)) = Some r"
  shows "\<exists>t q' m e. Put t q' m \<in> set ops \<and> key q' = key q \<and> made t q' m e \<and> served now q e r"
  using hit [OF run_inv [OF assms(1)] assms(3)] run_holds [OF assms(1)] assms(2) by metis

text \<open>A property of all entries held stays true if every entry put has it.\<close>

lemma holds_all:
  assumes "inv s" "\<forall>k e. holds s k e \<longrightarrow> P k e"
  shows "\<forall>k e. holds (snd (get now q s)) k e \<longrightarrow> P k e"
    "(\<And>k e. key q = Some k \<Longrightarrow> made now q m e \<Longrightarrow> P k e) \<Longrightarrow>
      \<forall>k e. holds (put now q m s) k e \<longrightarrow> P k e"
  using assms holds_get holds_put by blast+

end

end
