(* ===== verification/Response_Cache.thy ===== *)
theory Response_Cache
  imports Dns_Msg Config Message_Store "HOL-Library.Log_Nat"
begin

text \<open>
  \<^verbatim>\<open>internal/dns/cache.go\<close>: the LRU cache of responses.

  The doubly linked list of \<^verbatim>\<open>container/list\<close> is the list of its elements, front first; an element is a
  number, and \<open>elems\<close> gives its \<^verbatim>\<open>Value\<close>, an entry, which \<^verbatim>\<open>Set\<close> overwrites in place.  The map \<open>items\<close>
  points to elements.  Time is in nanoseconds; \<^verbatim>\<open>time.Now()\<close> is an argument of each operation.  The
  mutex makes each operation atomic and is not modelled.
\<close>

section \<open>Data\<close>

record cache_key =
  ck_name :: string
  ck_qtype :: u16
  ck_qclass :: u16

record cache_entry =
  ce_key :: cache_key
  ce_msg :: msg
  ce_expireAt :: int
  ce_initialTTL :: u32

record cache =
  items :: "cache_key \<Rightarrow> nat option"
  evict :: "nat list"
  elems :: "nat \<Rightarrow> cache_entry"
  maxSize :: int
  minTTL :: duration
  maxTTL :: duration
  enabled :: bool

text \<open>The list operations of \<^verbatim>\<open>container/list\<close>; a new element gets a number not in the list.\<close>

definition list_remove :: "nat \<Rightarrow> nat list \<Rightarrow> nat list" where
  "list_remove elem l = filter (\<lambda>x. x \<noteq> elem) l"

definition move_to_front :: "nat \<Rightarrow> nat list \<Rightarrow> nat list" where
  "move_to_front elem l = elem # list_remove elem l"

definition fresh_elem :: "nat list \<Rightarrow> nat" where
  "fresh_elem l = Suc (foldr max l 0)"

definition NewCache :: "cache_config \<Rightarrow> cache" where
  "NewCache cfg =
     (if \<not> CacheEnabled cfg \<or> Size cfg \<le> 0 then
        \<lparr>items = Map.empty, evict = [], elems = (\<lambda>_. undefined), maxSize = 0, minTTL = 0,
         maxTTL = 0, enabled = False\<rparr>
      else
        (let mn = (if MinTTL cfg \<le> 0 then 60 * Second else MinTTL cfg);
             mx = (if MaxTTL cfg \<le> 0 then 86400 * Second else MaxTTL cfg)
         in \<lparr>items = Map.empty, evict = [], elems = (\<lambda>_. undefined), maxSize = Size cfg,
             minTTL = mn, maxTTL = mx, enabled = True\<rparr>))"

definition makeKey :: "dnslib \<Rightarrow> (string \<Rightarrow> string) \<Rightarrow> question \<Rightarrow> cache_key" where
  "makeKey lib ul q =
     \<lparr>ck_name = to_lower ul (Fqdn lib (qName q)), ck_qtype = qType q, ck_qclass = qClass q\<rparr>"

section \<open>TTLs\<close>

text \<open>
  \<^verbatim>\<open>uint32(d.Seconds())\<close> for a duration that is not negative.  \<^verbatim>\<open>Seconds\<close> adds the whole seconds and the
  fraction as 64-bit floats, whose sum is rounded to the next integer if the fraction is within half
  a unit in the last place of 1: from \<open>2 ^ 24\<close> seconds on this happens for a few nanoseconds below a
  full second.  The conversion of a float of \<open>2 ^ 32\<close> and more, which Go leaves open, is the one of its
  amd64 and arm64 compilers on values below \<open>2 ^ 63\<close>, by way of \<^verbatim>\<open>int64\<close>.
\<close>

definition whole_seconds :: "duration \<Rightarrow> int" where
  "whole_seconds d =
     (let s = d div Second; n = d mod Second
      in if s \<noteq> 0 \<and> (Second - n) * 2 ^ (54 - floorlog 2 (nat s)) \<le> Second then s + 1 else s)"

definition seconds_u32 :: "duration \<Rightarrow> u32" where
  "seconds_u32 d = word_of_int (whole_seconds d)"

fun min_ttl_step :: "rr \<Rightarrow> u32 \<times> bool \<Rightarrow> u32 \<times> bool" where
  "min_ttl_step r (mn, found) =
     (let h = rr_header r in
      if hRrtype h = TypeOPT then (mn, found)
      else if \<not> found \<or> hTtl h < mn then (hTtl h, True)
      else (mn, found))"

definition calculateMinTTL :: "msg \<Rightarrow> u32" where
  "calculateMinTTL m =
     (let st = fold min_ttl_step (mAnswer m) (0, False);
          st = fold min_ttl_step (mNs m) st;
          (mn, found) = fold min_ttl_step (mExtra m) st
      in if \<not> found then 60 else mn)"

definition update_ttl :: "u32 \<Rightarrow> rr \<Rightarrow> rr" where
  "update_ttl ttl r =
     (let h = rr_header r in if hRrtype h \<noteq> TypeOPT then set_header (h\<lparr>hTtl := ttl\<rparr>) r else r)"

definition updateRecordTTLs :: "rr list \<Rightarrow> u32 \<Rightarrow> rr list" where
  "updateRecordTTLs rrs ttl = map (update_ttl ttl) rrs"

section \<open>Operations\<close>

text \<open>Lines 106 to 113: the cached message as it is served.\<close>

definition serve_copy :: "dnslib \<Rightarrow> u16 \<Rightarrow> u32 \<Rightarrow> msg \<Rightarrow> msg" where
  "serve_copy lib i remainingTTL m =
     (let r = Copy lib m;
          r = r\<lparr>mId := i\<rparr>;
          r = r\<lparr>mAnswer := updateRecordTTLs (mAnswer r) remainingTTL\<rparr>;
          r = r\<lparr>mNs := updateRecordTTLs (mNs r) remainingTTL\<rparr>;
          r = r\<lparr>mExtra := updateRecordTTLs (mExtra r) remainingTTL\<rparr>
      in r)"

definition remaining_ttl :: "int \<Rightarrow> int \<Rightarrow> u32" where
  "remaining_ttl expireAt now =
     (let remainingTTL = seconds_u32 (expireAt - now) in if remainingTTL = 0 then 1 else remainingTTL)"

definition Get ::
  "dnslib \<Rightarrow> (string \<Rightarrow> string) \<Rightarrow> int \<Rightarrow> msg option \<Rightarrow> cache \<Rightarrow> msg option \<times> cache" where
  "Get lib ul now req0 c =
     (case req0 of
        None \<Rightarrow> (None, c)
      | Some req \<Rightarrow>
          if \<not> enabled c \<or> mQuestion req = [] then (None, c)
          else
            (let key = makeKey lib ul (hd (mQuestion req)) in
             case items c key of
               None \<Rightarrow> (None, c)
             | Some elem \<Rightarrow>
                 (let entry = elems c elem in
                  if now > ce_expireAt entry then
                    (None, c\<lparr>evict := list_remove elem (evict c), items := (items c)(key := None)\<rparr>)
                  else
                    (Some (serve_copy lib (mId req) (remaining_ttl (ce_expireAt entry) now) (ce_msg entry)),
                     c\<lparr>evict := move_to_front elem (evict c)\<rparr>))))"

definition removeOldest :: "cache \<Rightarrow> cache" where
  "removeOldest c =
     (if evict c = [] then c
      else
        (let elem = last (evict c);
             c = c\<lparr>evict := list_remove elem (evict c)\<rparr>;
             entry = elems c elem
         in c\<lparr>items := (items c)(ce_key entry := None)\<rparr>))"

definition cacheable :: "msg \<Rightarrow> bool" where
  "cacheable resp \<longleftrightarrow>
     \<not> (mRcode resp \<noteq> RcodeSuccess \<and> mRcode resp \<noteq> RcodeNameError) \<and> \<not> mTruncated resp"

definition clamp_ttl :: "cache \<Rightarrow> u32 \<Rightarrow> u32" where
  "clamp_ttl c ttl =
     (let minSec = seconds_u32 (minTTL c);
          maxSec = seconds_u32 (maxTTL c);
          ttl = (if ttl < minSec then minSec else ttl);
          ttl = (if maxSec > 0 \<and> ttl > maxSec then maxSec else ttl)
      in ttl)"

text \<open>Lines 152 to 175, under the mutex.\<close>

definition store :: "dnslib \<Rightarrow> cache_key \<Rightarrow> u32 \<Rightarrow> int \<Rightarrow> msg \<Rightarrow> cache \<Rightarrow> cache" where
  "store lib key ttl expireAt resp c =
     (case items c key of
        Some elem \<Rightarrow>
          (let c = c\<lparr>evict := move_to_front elem (evict c)\<rparr>;
               entry = elems c elem;
               entry = entry\<lparr>ce_msg := Copy lib resp\<rparr>;
               entry = entry\<lparr>ce_expireAt := expireAt\<rparr>;
               entry = entry\<lparr>ce_initialTTL := ttl\<rparr>
           in c\<lparr>elems := (elems c)(elem := entry)\<rparr>)
      | None \<Rightarrow>
          (let c = (if int (length (evict c)) \<ge> maxSize c then removeOldest c else c);
               entry = \<lparr>ce_key = key, ce_msg = Copy lib resp, ce_expireAt = expireAt, ce_initialTTL = ttl\<rparr>;
               elem = fresh_elem (evict c)
           in c\<lparr>elems := (elems c)(elem := entry), evict := elem # evict c,
                items := (items c)(key \<mapsto> elem)\<rparr>))"

definition Set ::
  "dnslib \<Rightarrow> (string \<Rightarrow> string) \<Rightarrow> int \<Rightarrow> msg option \<Rightarrow> msg option \<Rightarrow> cache \<Rightarrow> cache" where
  "Set lib ul now req0 resp0 c =
     (case (req0, resp0) of
        (Some req, Some resp) \<Rightarrow>
          if \<not> enabled c \<or> mQuestion req = [] then c
          else if \<not> cacheable resp then c
          else
            (let ttl = calculateMinTTL resp in
             if ttl = 0 then c
             else
               (let ttl = clamp_ttl c ttl;
                    key = makeKey lib ul (hd (mQuestion req));
                    expireAt = now + int (unat ttl) * Second
                in store lib key ttl expireAt resp c))
      | _ \<Rightarrow> c)"

definition Cache_Len :: "cache \<Rightarrow> int" where
  "Cache_Len c = int (card (dom (items c)))"

section \<open>Invariant\<close>

definition cache_inv :: "cache \<Rightarrow> bool" where
  "cache_inv c \<longleftrightarrow>
     distinct (evict c) \<and>
     (\<forall>k i. items c k = Some i \<longleftrightarrow> i \<in> set (evict c) \<and> ce_key (elems c i) = k) \<and>
     int (length (evict c)) \<le> maxSize c \<and> (enabled c \<longrightarrow> 0 < maxSize c)"

lemma cache_invD:
  assumes "cache_inv c"
  shows "distinct (evict c)" "items c k = Some i \<longleftrightarrow> i \<in> set (evict c) \<and> ce_key (elems c i) = k"
    "int (length (evict c)) \<le> maxSize c" "enabled c \<Longrightarrow> 0 < maxSize c"
  using assms by (simp_all add: cache_inv_def)

lemma cache_inv_keys:
  assumes "cache_inv c" "i \<in> set (evict c)" "j \<in> set (evict c)" "ce_key (elems c i) = ce_key (elems c j)"
  shows "i = j"
  using cache_invD(2) [OF assms(1)] assms(2-4) by (metis option.inject)

lemma cache_inv_absent:
  assumes "cache_inv c" "items c k = None" "i \<in> set (evict c)"
  shows "ce_key (elems c i) \<noteq> k"
  using cache_invD(2) [OF assms(1), of k i] assms(2,3) by auto

lemma fresh_elem_notin: "fresh_elem l \<notin> set l"
proof -
  have "x \<in> set l \<Longrightarrow> x \<le> foldr max l 0" for x by (induction l) auto
  then show ?thesis by (fastforce simp: fresh_elem_def)
qed

lemma set_list_remove [simp]: "set (list_remove i l) = set l - {i}"
  by (auto simp: list_remove_def)

lemma distinct_list_remove [simp]: "distinct l \<Longrightarrow> distinct (list_remove i l)"
  by (simp add: list_remove_def)

lemma length_list_remove:
  "distinct l \<Longrightarrow> i \<in> set l \<Longrightarrow> Suc (length (list_remove i l)) = length l"
proof (induction l)
  case (Cons x l)
  show ?case
  proof (cases "x = i")
    case True
    with Cons.prems have "filter (\<lambda>y. y \<noteq> i) l = l" by (intro filter_True) auto
    with True show ?thesis by (simp add: list_remove_def)
  next
    case False
    with Cons show ?thesis by (simp add: list_remove_def)
  qed
qed simp

lemma list_remove_last: "distinct l \<Longrightarrow> l \<noteq> [] \<Longrightarrow> list_remove (last l) l = butlast l"
  by (cases l rule: rev_cases) (auto simp: list_remove_def filter_id_conv)

lemma cache_inv_remove:
  assumes "cache_inv c" "i \<in> set (evict c)"
  shows "cache_inv (c\<lparr>evict := list_remove i (evict c), items := (items c)(ce_key (elems c i) := None)\<rparr>)"
proof -
  have len: "Suc (length (list_remove i (evict c))) = length (evict c)"
    using length_list_remove [OF cache_invD(1) [OF assms(1)] assms(2)] .
  have "((items c)(ce_key (elems c i) := None)) k = Some j \<longleftrightarrow>
      j \<in> set (list_remove i (evict c)) \<and> ce_key (elems c j) = k" for k j
    using cache_invD(2) [OF assms(1), of k j] cache_inv_keys [OF assms, of j] by auto
  then show ?thesis
    using len cache_invD(1,3,4) [OF assms(1)] by (simp add: cache_inv_def)
qed

lemma cache_inv_touch:
  assumes "cache_inv c" "i \<in> set (evict c)"
  shows "cache_inv (c\<lparr>evict := move_to_front i (evict c)\<rparr>)"
  using assms length_list_remove [OF cache_invD(1) [OF assms(1)] assms(2)]
  by (auto simp: cache_inv_def move_to_front_def)

lemma cache_inv_overwrite:
  assumes "cache_inv c" "ce_key e = ce_key (elems c i)"
  shows "cache_inv (c\<lparr>elems := (elems c)(i := e)\<rparr>)"
  using assms by (auto simp: cache_inv_def)

lemma cache_inv_push:
  assumes "cache_inv c" "items c (ce_key e) = None" "i \<notin> set (evict c)"
    "int (length (evict c)) < maxSize c"
  shows "cache_inv (c\<lparr>elems := (elems c)(i := e), evict := i # evict c, items := (items c)(ce_key e \<mapsto> i)\<rparr>)"
proof -
  have "((items c)(ce_key e \<mapsto> i)) k = Some j \<longleftrightarrow>
      j \<in> set (i # evict c) \<and> ce_key (((elems c)(i := e)) j) = k" for k j
    using cache_invD(2) [OF assms(1), of k j] cache_inv_absent [OF assms(1,2), of j] assms(3) by auto
  then show ?thesis
    using assms(3,4) cache_invD(1,4) [OF assms(1)] by (simp add: cache_inv_def)
qed

lemma removeOldest_eq:
  assumes "cache_inv c" "evict c \<noteq> []"
  shows "removeOldest c = c\<lparr>evict := list_remove (last (evict c)) (evict c),
    items := (items c)(ce_key (elems c (last (evict c))) := None)\<rparr>"
  using assms by (simp add: removeOldest_def Let_def)

lemma removeOldest_inv:
  assumes "cache_inv c"
  shows "cache_inv (removeOldest c)"
proof (cases "evict c = []")
  case False
  then show ?thesis
    unfolding removeOldest_eq [OF assms False] by (intro cache_inv_remove assms last_in_set)
qed (use assms in \<open>simp add: removeOldest_def\<close>)

lemma removeOldest_frame [simp]:
  "maxSize (removeOldest c) = maxSize c" "enabled (removeOldest c) = enabled c"
  "minTTL (removeOldest c) = minTTL c" "maxTTL (removeOldest c) = maxTTL c"
  "elems (removeOldest c) = elems c"
  by (simp_all add: removeOldest_def Let_def)

lemma removeOldest_evict: "cache_inv c \<Longrightarrow> evict (removeOldest c) = butlast (evict c)"
  by (cases "evict c = []")
     (simp_all add: removeOldest_eq list_remove_last cache_invD, simp add: removeOldest_def)

lemma removeOldest_items: "items c k = None \<Longrightarrow> items (removeOldest c) k = None"
  by (simp add: removeOldest_def Let_def)

section \<open>Refinement of an abstract LRU list\<close>

text \<open>The cache as the list of its entries, most recently used first.\<close>

definition lru_list :: "cache \<Rightarrow> cache_entry list" where
  "lru_list c = map (elems c) (evict c)"

definition lru_lookup :: "cache_key \<Rightarrow> cache_entry list \<Rightarrow> cache_entry option" where
  "lru_lookup k L = List.find (\<lambda>e. ce_key e = k) L"

definition lru_remove :: "cache_key \<Rightarrow> cache_entry list \<Rightarrow> cache_entry list" where
  "lru_remove k L = filter (\<lambda>e. ce_key e \<noteq> k) L"

definition lru_put :: "nat \<Rightarrow> cache_entry \<Rightarrow> cache_entry list \<Rightarrow> cache_entry list" where
  "lru_put cap e L =
     (if lru_lookup (ce_key e) L \<noteq> None then e # lru_remove (ce_key e) L
      else e # take (cap - 1) L)"

lemma find_unique:
  assumes "x \<in> set xs" "P x" "\<And>y. y \<in> set xs \<Longrightarrow> P y \<Longrightarrow> y = x"
  shows "List.find P xs = Some x"
  using assms
proof (induction xs)
  case (Cons z xs)
  show ?case
  proof (cases "P z")
    case True
    then have "z = x" using Cons.prems(3) [of z] by simp
    with True show ?thesis by simp
  next
    case False
    with Cons.prems(1,2) have "x \<in> set xs" by auto
    then have "List.find P xs = Some x"
    proof (rule Cons.IH [OF _ Cons.prems(2)])
      fix y assume "y \<in> set xs" "P y"
      then show "y = x" by (rule Cons.prems(3) [OF list.set_intros(2)])
    qed
    with False show ?thesis by simp
  qed
qed simp

lemma lookup_items:
  assumes "cache_inv c"
  shows "lru_lookup k (lru_list c) = map_option (elems c) (items c k)"
proof (cases "items c k")
  case None
  then have "\<forall>i \<in> set (evict c). ce_key (elems c i) \<noteq> k"
    using cache_invD(2) [OF assms, of k] by (metis option.distinct(1))
  then show ?thesis using None by (auto simp: lru_lookup_def lru_list_def find_None_iff)
next
  case (Some i)
  then have i: "i \<in> set (evict c)" "ce_key (elems c i) = k"
    using cache_invD(2) [OF assms, of k i] by simp_all
  have "lru_lookup k (lru_list c) = Some (elems c i)"
    unfolding lru_lookup_def lru_list_def
  proof (rule find_unique)
    show "elems c i \<in> set (map (elems c) (evict c))" "ce_key (elems c i) = k" using i by simp_all
    fix y assume "y \<in> set (map (elems c) (evict c))" "ce_key y = k"
    then obtain j where "y = elems c j" "j \<in> set (evict c)" "ce_key (elems c j) = k" by auto
    then show "y = elems c i" using cache_inv_keys [OF assms i(1), of j] i(2) by simp
  qed
  with Some show ?thesis by simp
qed

lemma remove_items:
  assumes "cache_inv c" "items c k = Some i"
  shows "lru_remove k (lru_list c) = map (elems c) (list_remove i (evict c))"
proof -
  have i: "i \<in> set (evict c)" "ce_key (elems c i) = k"
    using cache_invD(2) [OF assms(1), of k i] assms(2) by simp_all
  have "filter (\<lambda>j. ce_key (elems c j) \<noteq> k) (evict c) = filter (\<lambda>j. j \<noteq> i) (evict c)"
  proof (rule filter_cong [OF refl])
    fix j assume "j \<in> set (evict c)"
    then show "(ce_key (elems c j) \<noteq> k) = (j \<noteq> i)"
      using i(2) cache_inv_keys [OF assms(1) i(1)] by metis
  qed
  then show ?thesis by (simp add: lru_remove_def lru_list_def list_remove_def filter_map o_def)
qed

lemma store_existing:
  fixes resp :: msg and t :: int and ttl :: u32 and lib :: dnslib
  assumes "cache_inv c" "items c key = Some i"
  defines "e \<equiv> \<lparr>ce_key = key, ce_msg = Copy lib resp, ce_expireAt = t, ce_initialTTL = ttl\<rparr>"
  shows "store lib key ttl t resp c = c\<lparr>evict := move_to_front i (evict c), elems := (elems c)(i := e)\<rparr>"
    "lru_list (store lib key ttl t resp c) = e # lru_remove key (lru_list c)"
    "cache_inv (store lib key ttl t resp c)"
proof -
  have i: "i \<in> set (evict c)" "ce_key (elems c i) = key"
    using cache_invD(2) [OF assms(1), of key i] assms(2) by simp_all
  show eq: "store lib key ttl t resp c = c\<lparr>evict := move_to_front i (evict c), elems := (elems c)(i := e)\<rparr>"
  proof -
    have "(elems c i)\<lparr>ce_msg := Copy lib resp, ce_expireAt := t, ce_initialTTL := ttl\<rparr> = e"
      using i(2) by (cases "elems c i") (simp add: e_def)
    then show ?thesis using assms(2) by (simp add: store_def Let_def)
  qed
  have "map ((elems c)(i := e)) (list_remove i (evict c)) = map (elems c) (list_remove i (evict c))"
    by (intro map_cong) auto
  then show "lru_list (store lib key ttl t resp c) = e # lru_remove key (lru_list c)"
    unfolding eq remove_items [OF assms(1,2)] by (simp add: lru_list_def move_to_front_def)
  show "cache_inv (store lib key ttl t resp c)"
    using cache_inv_overwrite [OF cache_inv_touch [OF assms(1) i(1)], of e i] i(2)
    unfolding eq by (simp add: e_def)
qed

lemma store_new:
  fixes resp :: msg and t :: int and ttl :: u32 and lib :: dnslib
  assumes "cache_inv c" "items c key = None" "enabled c"
  defines "e \<equiv> \<lparr>ce_key = key, ce_msg = Copy lib resp, ce_expireAt = t, ce_initialTTL = ttl\<rparr>"
  shows "lru_list (store lib key ttl t resp c) = e # take (nat (maxSize c) - 1) (lru_list c)"
    "cache_inv (store lib key ttl t resp c)"
proof -
  define c1 where "c1 = (if int (length (evict c)) \<ge> maxSize c then removeOldest c else c)"
  define i where "i = fresh_elem (evict c1)"
  have inv1: "cache_inv c1" using assms(1) removeOldest_inv by (simp add: c1_def)
  have none: "items c1 key = None" using assms(2) removeOldest_items by (simp add: c1_def)
  have elems1: "elems c1 = elems c" and max1: "maxSize c1 = maxSize c" by (simp_all add: c1_def)
  have len: "int (length (evict c)) \<le> maxSize c" "0 < maxSize c"
    using cache_invD [OF assms(1)] assms(3) by simp_all
  have ev: "evict c1 = take (nat (maxSize c) - 1) (evict c)"
    using len removeOldest_evict [OF assms(1)] by (auto simp: c1_def butlast_conv_take)
  have eq: "store lib key ttl t resp c =
      c1\<lparr>elems := (elems c1)(i := e), evict := i # evict c1, items := (items c1)(key \<mapsto> i)\<rparr>"
    using assms(2) by (simp add: store_def Let_def e_def c1_def [symmetric] i_def)
  have i: "i \<notin> set (evict c1)" unfolding i_def by (rule fresh_elem_notin)
  then have "map ((elems c1)(i := e)) (evict c1) = map (elems c1) (evict c1)"
    by (intro map_cong) auto
  then show "lru_list (store lib key ttl t resp c) = e # take (nat (maxSize c) - 1) (lru_list c)"
    unfolding eq by (simp add: lru_list_def ev elems1 take_map)
  have "int (length (evict c1)) < maxSize c1" using len by (auto simp: ev max1)
  then show "cache_inv (store lib key ttl t resp c)"
    using cache_inv_push [OF inv1 _ i, of e] none unfolding eq by (simp add: e_def)
qed

definition lru_get ::
  "dnslib \<Rightarrow> int \<Rightarrow> u16 \<Rightarrow> cache_key \<Rightarrow> cache_entry list \<Rightarrow> msg option \<times> cache_entry list" where
  "lru_get lib now i k L =
     (case lru_lookup k L of
        None \<Rightarrow> (None, L)
      | Some e \<Rightarrow>
          if now > ce_expireAt e then (None, lru_remove k L)
          else (Some (serve_copy lib i (remaining_ttl (ce_expireAt e) now) (ce_msg e)), e # lru_remove k L))"

definition new_entry :: "dnslib \<Rightarrow> (string \<Rightarrow> string) \<Rightarrow> cache \<Rightarrow> int \<Rightarrow> msg \<Rightarrow> msg \<Rightarrow> cache_entry" where
  "new_entry lib ul c now req resp =
     (let ttl = clamp_ttl c (calculateMinTTL resp)
      in \<lparr>ce_key = makeKey lib ul (hd (mQuestion req)), ce_msg = Copy lib resp,
          ce_expireAt = now + int (unat ttl) * Second, ce_initialTTL = ttl\<rparr>)"

definition storable :: "cache \<Rightarrow> msg \<Rightarrow> msg \<Rightarrow> bool" where
  "storable c req resp \<longleftrightarrow>
     enabled c \<and> mQuestion req \<noteq> [] \<and> cacheable resp \<and> calculateMinTTL resp \<noteq> 0"

lemma Set_cases:
  "Set lib ul now (Some req) (Some resp) c =
     (if storable c req resp then
        store lib (makeKey lib ul (hd (mQuestion req))) (clamp_ttl c (calculateMinTTL resp))
          (now + int (unat (clamp_ttl c (calculateMinTTL resp))) * Second) resp c
      else c)"
  by (simp add: Set_def storable_def Let_def)

lemma Get_refines:
  assumes "cache_inv c" "enabled c" "mQuestion req \<noteq> []"
  shows "(fst (Get lib ul now (Some req) c), lru_list (snd (Get lib ul now (Some req) c))) =
    lru_get lib now (mId req) (makeKey lib ul (hd (mQuestion req))) (lru_list c)"
proof (cases "items c (makeKey lib ul (hd (mQuestion req)))")
  case None
  then show ?thesis using assms by (simp add: Get_def lru_get_def lookup_items)
next
  case (Some i)
  note rm = remove_items [OF assms(1) Some]
  show ?thesis
    unfolding lru_get_def lookup_items [OF assms(1)] rm
    using assms(2,3) Some by (simp add: Get_def Let_def lru_list_def move_to_front_def)
qed

lemma Get_inv:
  assumes "cache_inv c"
  shows "cache_inv (snd (Get lib ul now req c))"
proof (cases req)
  case (Some r)
  show ?thesis
  proof (cases "\<not> enabled c \<or> mQuestion r = [] \<or> items c (makeKey lib ul (hd (mQuestion r))) = None")
    case True
    then show ?thesis using assms Some by (auto simp: Get_def)
  next
    case False
    then obtain i where i: "items c (makeKey lib ul (hd (mQuestion r))) = Some i" by auto
    then have "i \<in> set (evict c)" "ce_key (elems c i) = makeKey lib ul (hd (mQuestion r))"
      using cache_invD(2) [OF assms] by simp_all
    with i False Some show ?thesis
      using cache_inv_remove [OF assms, of i] cache_inv_touch [OF assms, of i]
      by (simp add: Get_def Let_def)
  qed
qed (use assms in \<open>simp add: Get_def\<close>)

lemma Set_refines:
  assumes "cache_inv c" "storable c req resp"
  shows "lru_list (Set lib ul now (Some req) (Some resp) c) =
    lru_put (nat (maxSize c)) (new_entry lib ul c now req resp) (lru_list c)"
proof -
  let ?k = "makeKey lib ul (hd (mQuestion req))"
  have en: "enabled c" using assms(2) by (simp add: storable_def)
  show ?thesis
  proof (cases "items c ?k")
    case None
    then show ?thesis
      using store_new(1) [OF assms(1) None en] assms(2)
      by (simp add: Set_cases lru_put_def new_entry_def Let_def lookup_items [OF assms(1)])
  next
    case (Some i)
    then show ?thesis
      using store_existing(2) [OF assms(1) Some] assms(2)
      by (simp add: Set_cases lru_put_def new_entry_def Let_def lookup_items [OF assms(1)])
  qed
qed

lemma Set_inv:
  assumes "cache_inv c"
  shows "cache_inv (Set lib ul now req resp c)"
proof (cases "\<exists>r m. req = Some r \<and> resp = Some m \<and> storable c r m")
  case True
  then obtain r m where rm: "req = Some r" "resp = Some m" "storable c r m" by auto
  then have "enabled c" by (simp add: storable_def)
  with rm show ?thesis
    using store_existing(3) [OF assms] store_new(2) [OF assms]
    by (cases "items c (makeKey lib ul (hd (mQuestion r)))") (simp_all add: Set_cases)
next
  case False
  then have "Set lib ul now req resp c = c"
    by (cases req; cases resp) (auto simp: Set_cases, simp_all add: Set_def)
  with assms show ?thesis by simp
qed

lemma NewCache_inv: "cache_inv (NewCache cfg)"
  by (simp add: cache_inv_def NewCache_def Let_def)

lemma store_frame [simp]:
  "maxSize (store lib key ttl t resp c) = maxSize c" "enabled (store lib key ttl t resp c) = enabled c"
  "minTTL (store lib key ttl t resp c) = minTTL c" "maxTTL (store lib key ttl t resp c) = maxTTL c"
  by (simp_all add: store_def Let_def split: option.split)

lemma Set_frame [simp]:
  "maxSize (Set lib ul now req resp c) = maxSize c" "enabled (Set lib ul now req resp c) = enabled c"
  "minTTL (Set lib ul now req resp c) = minTTL c" "maxTTL (Set lib ul now req resp c) = maxTTL c"
  by (cases req; cases resp; simp add: Set_cases; simp add: Set_def)+

lemma Get_frame [simp]:
  "maxSize (snd (Get lib ul now req c)) = maxSize c" "enabled (snd (Get lib ul now req c)) = enabled c"
  "minTTL (snd (Get lib ul now req c)) = minTTL c" "maxTTL (snd (Get lib ul now req c)) = maxTTL c"
  by (cases req; simp add: Get_def Let_def split: option.split)+

section \<open>The contract of the handler\<close>

text \<open>What the cache holds, and what it serves; the clamps \<open>mn\<close> and \<open>mx\<close> are those of its configuration.\<close>

definition stored_ttl :: "duration \<Rightarrow> duration \<Rightarrow> msg \<Rightarrow> u32" where
  "stored_ttl mn mx m =
     (let ttl = max (seconds_u32 mn) (calculateMinTTL m)
      in if seconds_u32 mx > 0 then min (seconds_u32 mx) ttl else ttl)"

lemma clamp_stored: "clamp_ttl c (calculateMinTTL m) = stored_ttl (minTTL c) (maxTTL c) m"
  by (auto simp: clamp_ttl_def stored_ttl_def Let_def max_def min_def)

definition expiry :: "duration \<Rightarrow> duration \<Rightarrow> int \<Rightarrow> msg \<Rightarrow> int" where
  "expiry mn mx t m = t + int (unat (stored_ttl mn mx m)) * Second"

definition query_key :: "dnslib \<Rightarrow> (string \<Rightarrow> string) \<Rightarrow> msg \<Rightarrow> cache_key option" where
  "query_key lib ul req =
     (case mQuestion req of [] \<Rightarrow> None | q # _ \<Rightarrow> Some (makeKey lib ul q))"

definition cache_ok :: "duration \<Rightarrow> duration \<Rightarrow> cache \<Rightarrow> bool" where
  "cache_ok mn mx c \<longleftrightarrow> cache_inv c \<and> minTTL c = mn \<and> maxTTL c = mx"

definition cache_holds :: "cache \<Rightarrow> cache_key \<Rightarrow> cache_entry \<Rightarrow> bool" where
  "cache_holds c k e \<longleftrightarrow> e \<in> set (lru_list c) \<and> ce_key e = k"

definition cache_made ::
  "dnslib \<Rightarrow> duration \<Rightarrow> duration \<Rightarrow> int \<Rightarrow> msg \<Rightarrow> msg \<Rightarrow> cache_entry \<Rightarrow> bool" where
  "cache_made lib mn mx t req m e \<longleftrightarrow>
     cacheable m \<and> calculateMinTTL m \<noteq> 0 \<and> ce_msg e = Copy lib m \<and> ce_expireAt e = expiry mn mx t m"

definition cache_served :: "dnslib \<Rightarrow> int \<Rightarrow> msg \<Rightarrow> cache_entry \<Rightarrow> msg \<Rightarrow> bool" where
  "cache_served lib now req e r \<longleftrightarrow>
     now \<le> ce_expireAt e \<and>
     r = serve_copy lib (mId req) (remaining_ttl (ce_expireAt e) now) (ce_msg e)"

lemma lru_lookup_Some: "lru_lookup k L = Some e \<Longrightarrow> e \<in> set L \<and> ce_key e = k"
  unfolding lru_lookup_def find_Some_iff by auto

lemma Get_unused:
  "\<not> (enabled c \<and> mQuestion req \<noteq> []) \<Longrightarrow> Get lib ul now (Some req) c = (None, c)"
  by (auto simp: Get_def)

lemma lru_get_entries: "set (snd (lru_get lib now i k L)) \<subseteq> set L"
proof (cases "lru_lookup k L")
  case (Some e)
  then have "e \<in> set L" by (simp add: lru_lookup_Some)
  with Some show ?thesis by (auto simp: lru_get_def lru_remove_def)
qed (simp add: lru_get_def)

lemma Get_entries:
  assumes "cache_inv c"
  shows "set (lru_list (snd (Get lib ul now (Some req) c))) \<subseteq> set (lru_list c)"
proof (cases "enabled c \<and> mQuestion req \<noteq> []")
  case True
  then have "lru_list (snd (Get lib ul now (Some req) c)) =
      snd (lru_get lib now (mId req) (makeKey lib ul (hd (mQuestion req))) (lru_list c))"
    using Get_refines [OF assms, of req lib ul now] by (metis snd_conv)
  then show ?thesis by (simp only: lru_get_entries)
qed (simp add: Get_unused)

lemma lru_put_entries: "set (lru_put cap e L) \<subseteq> insert e (set L)"
  using set_take_subset [of "cap - 1" L] by (auto simp: lru_put_def lru_remove_def)

lemma Set_entries:
  assumes "cache_inv c" "e \<in> set (lru_list (Set lib ul now (Some req) (Some m) c))"
  shows "e \<in> set (lru_list c) \<or> storable c req m \<and> e = new_entry lib ul c now req m"
proof (cases "storable c req m")
  case True
  then show ?thesis
    using assms(2) lru_put_entries unfolding Set_refines [OF assms(1) True] by blast
qed (use assms in \<open>simp add: Set_cases\<close>)

lemma Get_hit:
  assumes "cache_inv c" "fst (Get lib ul now (Some req) c) = Some r"
  shows "\<exists>k e. query_key lib ul req = Some k \<and> cache_holds c k e \<and> cache_served lib now req e r"
proof -
  have en: "enabled c" "mQuestion req \<noteq> []"
    using assms(2) Get_unused [of c req lib ul now] by (auto simp: Get_def split: if_splits)
  define k where "k = makeKey lib ul (hd (mQuestion req))"
  have "fst (lru_get lib now (mId req) k (lru_list c)) = Some r"
    using Get_refines [OF assms(1) en, of lib ul now] assms(2) unfolding k_def by (metis fst_conv)
  then obtain e where e: "lru_lookup k (lru_list c) = Some e" "now \<le> ce_expireAt e"
      "r = serve_copy lib (mId req) (remaining_ttl (ce_expireAt e) now) (ce_msg e)"
    by (auto simp: lru_get_def split: option.splits if_splits)
  moreover have "query_key lib ul req = Some k"
    using en(2) by (cases "mQuestion req") (simp_all add: query_key_def k_def)
  ultimately show ?thesis
    using lru_lookup_Some [OF e(1)] unfolding cache_holds_def cache_served_def by blast
qed

lemma new_entry_made:
  assumes "storable c req m"
  shows "cache_made lib (minTTL c) (maxTTL c) now req m (new_entry lib ul c now req m)"
    "query_key lib ul req = Some (ce_key (new_entry lib ul c now req m))"
  using assms
  by (simp_all add: cache_made_def new_entry_def Let_def expiry_def clamp_stored query_key_def storable_def
      split: list.split)

interpretation responses: message_store
  "\<lambda>now q c. Get lib ul now (Some q) c" "\<lambda>now q m c. Set lib ul now (Some q) (Some m) c"
  "cache_ok mn mx" "query_key lib ul" cache_holds "cache_made lib mn mx" "cache_served lib"
  for lib ul mn mx
proof
  fix c now q m k e r
  assume ok: "cache_ok mn mx c"
  then have inv: "cache_inv c" by (simp add: cache_ok_def)
  show "cache_ok mn mx (snd (Get lib ul now (Some q) c))"
    "cache_ok mn mx (Set lib ul now (Some q) (Some m) c)"
    using ok Get_inv [OF inv] Set_inv [OF inv] by (simp_all add: cache_ok_def)
  show "\<exists>k e. query_key lib ul q = Some k \<and> cache_holds c k e \<and> cache_served lib now q e r"
    if "fst (Get lib ul now (Some q) c) = Some r" using Get_hit [OF inv that] .
  show "cache_holds c k e" if "cache_holds (snd (Get lib ul now (Some q) c)) k e"
    using that Get_entries [OF inv] unfolding cache_holds_def by blast
  show "cache_holds c k e \<or> query_key lib ul q = Some k \<and> cache_made lib mn mx now q m e"
    if "cache_holds (Set lib ul now (Some q) (Some m) c) k e"
    using that Set_entries [OF inv, of e lib ul now q m] new_entry_made [where c = c and req = q and m = m and lib = lib and ul = ul and now = now] ok
    unfolding cache_holds_def cache_ok_def by auto
qed

section \<open>Durations and TTLs\<close>

declare of_nat_unat [simp del]

lemma floorlog_le_34: "s < 2 ^ 34 \<Longrightarrow> floorlog 2 s \<le> 34"
  by (rule floorlog_leI) auto

lemma whole_seconds_bounds:
  assumes "0 \<le> d" "d < 2 ^ 34 * Second"
  shows "d div Second \<le> whole_seconds d" "whole_seconds d * Second < d + Second"
proof -
  define s where "s = d div Second"
  define n where "n = d mod Second"
  have d: "d = s * Second + n" "0 \<le> n" "n < Second" "0 \<le> s"
    using assms by (simp_all add: s_def n_def Second_def pos_imp_zdiv_nonneg_iff)
  show "d div Second \<le> whole_seconds d" by (simp add: whole_seconds_def Let_def)
  have "s < 2 ^ 34" using assms(2) d by (simp add: Second_def)
  then have "floorlog 2 (nat s) \<le> 34" using d(4) by (intro floorlog_le_34) simp
  then have "(2 :: int) ^ 20 \<le> 2 ^ (54 - floorlog 2 (nat s))" by (intro power_increasing) simp_all
  then have "0 < n" if "(Second - n) * 2 ^ (54 - floorlog 2 (nat s)) \<le> Second"
    using that d mult_left_mono [of 1 "2 ^ (54 - floorlog 2 (nat s))" "Second"]
    by (cases "n = 0") (auto simp: Second_def)
  then show "whole_seconds d * Second < d + Second"
    using d by (auto simp: whole_seconds_def Let_def s_def [symmetric] n_def [symmetric] algebra_simps)
qed

lemma whole_seconds_exact: "0 \<le> k \<Longrightarrow> k < 2 ^ 34 \<Longrightarrow> whole_seconds (k * Second) = k"
  using whole_seconds_bounds [of "k * Second"] by (simp add: Second_def)

lemma seconds_u32_range:
  assumes "0 \<le> d" "d \<le> int (unat (w :: u32)) * Second"
  shows "unat (seconds_u32 d) = nat (whole_seconds d)" "0 \<le> whole_seconds d"
    "whole_seconds d \<le> int (unat w)" "whole_seconds d * Second < d + Second"
proof -
  have w: "unat w < 2 ^ 32" using unsigned_less [of w, where 'a = nat] by simp
  then have "int (unat w) * Second < 2 ^ 34 * Second" by (simp add: Second_def)
  then have d: "d < 2 ^ 34 * Second" using assms(2) by linarith
  note b = whole_seconds_bounds [OF assms(1) d]
  show "whole_seconds d * Second < d + Second" by (rule b(2))
  have "0 \<le> d div Second" using assms(1) by (simp add: Second_def pos_imp_zdiv_nonneg_iff)
  with b(1) show z: "0 \<le> whole_seconds d" by linarith
  have "whole_seconds d * Second < (int (unat w) + 1) * Second"
    using b(2) assms(2) by (simp add: algebra_simps)
  then show le: "whole_seconds d \<le> int (unat w)" by (simp add: Second_def)
  with w have "whole_seconds d < 2 ^ 32" by simp
  with z show "unat (seconds_u32 d) = nat (whole_seconds d)"
    unfolding seconds_u32_def by (rule unat_of_int_u32)
qed

text \<open>Rounding up needs a fraction that the float of so many whole seconds cannot hold.\<close>

lemma whole_seconds_cases:
  assumes "0 \<le> d"
  shows "whole_seconds d = d div Second \<or> 2 ^ 24 \<le> d div Second \<and> whole_seconds d = d div Second + 1"
proof (cases "d div Second < 2 ^ 24")
  case True
  define n where "n = d mod Second"
  have n: "1 \<le> Second - n" by (simp add: n_def Second_def zle_diff1_eq)
  have "floorlog 2 (nat (d div Second)) \<le> 24" using True by (intro floorlog_leI) auto
  then have "(2 :: int) ^ 30 \<le> 2 ^ (54 - floorlog 2 (nat (d div Second)))"
    by (intro power_increasing) simp_all
  then have "Second < (Second - n) * 2 ^ (54 - floorlog 2 (nat (d div Second)))"
    using mult_mono [OF n, of "2 ^ 30" "2 ^ (54 - floorlog 2 (nat (d div Second)))"] n
    by (simp add: Second_def)
  then show ?thesis by (simp add: whole_seconds_def Let_def n_def)
qed (auto simp: whole_seconds_def Let_def)

lemma remaining_ttl_bounds:
  assumes "0 < unat (w :: u32)" "0 \<le> d" "d \<le> int (unat w) * Second"
  shows "1 \<le> unat (remaining_ttl (now + d) now)" "unat (remaining_ttl (now + d) now) \<le> unat w"
    "int (unat (remaining_ttl (now + d) now)) = max 1 (d div Second) \<or>
     2 ^ 24 \<le> d div Second \<and> int (unat (remaining_ttl (now + d) now)) = d div Second + 1"
proof -
  note r = seconds_u32_range [OF assms(2,3)]
  have eq: "int (unat (remaining_ttl (now + d) now)) = max 1 (whole_seconds d)"
    using r(1,2) by (auto simp: remaining_ttl_def Let_def unat_eq_0 [symmetric] simp del: unat_eq_0)
  show "1 \<le> unat (remaining_ttl (now + d) now)" "unat (remaining_ttl (now + d) now) \<le> unat w"
    using eq r(3) assms(1) by simp_all
  show "int (unat (remaining_ttl (now + d) now)) = max 1 (d div Second) \<or>
     2 ^ 24 \<le> d div Second \<and> int (unat (remaining_ttl (now + d) now)) = d div Second + 1"
    unfolding eq using whole_seconds_cases [OF assms(2)] by auto
qed

lemma stored_ttl_pos: "calculateMinTTL m \<noteq> 0 \<Longrightarrow> 0 < unat (stored_ttl mn mx m)"
  by (auto simp: stored_ttl_def Let_def min_def max_def unat_gt_0 not_le word_gt_0)

definition ttls :: "rr list \<Rightarrow> u32 list" where
  "ttls rs = map (hTtl \<circ> rr_header) (filter (\<lambda>r. hRrtype (rr_header r) \<noteq> TypeOPT) rs)"

lemma ttls_simps [simp]:
  "ttls [] = []"
  "ttls (r # rs) = (if hRrtype (rr_header r) = TypeOPT then ttls rs else hTtl (rr_header r) # ttls rs)"
  "ttls (rs @ rs') = ttls rs @ ttls rs'"
  by (simp_all add: ttls_def)

lemma fold_min_ttl:
  "fold min_ttl_step rs (mn, found) =
     (if ttls rs = [] then (mn, found)
      else (Min (set (ttls rs) \<union> (if found then {mn} else {})), True))"
proof (induction rs arbitrary: mn found)
  case (Cons r rs)
  show ?case
  proof (cases "hRrtype (rr_header r) = TypeOPT")
    case False
    let ?t = "hTtl (rr_header r)"
    have "min_ttl_step r (mn, found) = (if found then min ?t mn else ?t, True)"
      using False by (auto simp: Let_def min_def)
    then show ?thesis using False Cons.IH by (auto simp: min.commute min.left_commute)
  qed (use Cons.IH in simp)
qed simp

lemma calculateMinTTL_eq:
  "calculateMinTTL m =
     (let ts = ttls (mAnswer m @ mNs m @ mExtra m) in if ts = [] then 60 else Min (set ts))"
proof -
  have "fold min_ttl_step (mExtra m) (fold min_ttl_step (mNs m) (fold min_ttl_step (mAnswer m) (0, False))) =
      fold min_ttl_step (mAnswer m @ mNs m @ mExtra m) (0, False)"
    by simp
  then show ?thesis
    unfolding calculateMinTTL_def Let_def fold_min_ttl by simp
qed

lemma update_ttl_header:
  "rr_header (update_ttl ttl r) =
     (if hRrtype (rr_header r) = TypeOPT then rr_header r else (rr_header r)\<lparr>hTtl := ttl\<rparr>)"
  by (simp add: update_ttl_def Let_def)

lemma serve_copy_fields [simp]:
  "mId (serve_copy lib i ttl m) = i"
  "mQuestion (serve_copy lib i ttl m) = mQuestion (Copy lib m)"
  "mRcode (serve_copy lib i ttl m) = mRcode (Copy lib m)"
  "mTruncated (serve_copy lib i ttl m) = mTruncated (Copy lib m)"
  "mAnswer (serve_copy lib i ttl m) = map (update_ttl ttl) (mAnswer (Copy lib m))"
  "mNs (serve_copy lib i ttl m) = map (update_ttl ttl) (mNs (Copy lib m))"
  "mExtra (serve_copy lib i ttl m) = map (update_ttl ttl) (mExtra (Copy lib m))"
  by (simp_all add: serve_copy_def Let_def updateRecordTTLs_def)

lemma Get_after_Set:
  assumes "cache_inv c" "storable c req m" "query_key lib ul req' = query_key lib ul req"
    "now \<le> expiry (minTTL c) (maxTTL c) t m"
  shows "fst (Get lib ul now (Some req') (Set lib ul t (Some req) (Some m) c)) =
    Some (serve_copy lib (mId req') (remaining_ttl (expiry (minTTL c) (maxTTL c) t m) now) (Copy lib m))"
proof -
  define c' where "c' = Set lib ul t (Some req) (Some m) c"
  define e where "e = new_entry lib ul c t req m"
  have L: "lru_list c' = lru_put (nat (maxSize c)) e (lru_list c)"
    unfolding c'_def e_def by (rule Set_refines [OF assms(1,2)])
  have "query_key lib ul req = Some (ce_key e)"
    unfolding e_def by (rule new_entry_made(2) [OF assms(2)])
  with assms(3) have q: "mQuestion req' \<noteq> []" "makeKey lib ul (hd (mQuestion req')) = ce_key e"
    by (auto simp: query_key_def split: list.splits)
  have "lru_lookup (ce_key e) (lru_list c') = Some e"
    unfolding L by (simp add: lru_put_def lru_lookup_def)
  moreover have "ce_msg e = Copy lib m" "ce_expireAt e = expiry (minTTL c) (maxTTL c) t m"
    using new_entry_made(1) [OF assms(2), of lib t ul] by (simp_all add: cache_made_def e_def)
  moreover have "enabled c'" "cache_inv c'"
    using assms(1,2) Set_inv by (auto simp: storable_def c'_def)
  ultimately show ?thesis
    using Get_refines [of c' req' lib ul now] q assms(4) unfolding c'_def [symmetric]
    by (simp add: lru_get_def)
qed

section \<open>Properties\<close>

text \<open>The effect of a sequence of operations on the cache.\<close>

fun cache_step :: "dnslib \<Rightarrow> (string \<Rightarrow> string) \<Rightarrow> (msg, msg) store_op \<Rightarrow> cache \<Rightarrow> cache" where
  "cache_step lib ul (Lookup now req) c = snd (Get lib ul now (Some req) c)"
| "cache_step lib ul (Put now req resp) c = Set lib ul now (Some req) (Some resp) c"

definition cache_run ::
  "dnslib \<Rightarrow> (string \<Rightarrow> string) \<Rightarrow> (msg, msg) store_op list \<Rightarrow> cache \<Rightarrow> cache" where
  "cache_run lib ul = fold (cache_step lib ul)"

lemma cache_run_eq: "cache_run lib ul ops c = responses.run lib ul ops c"
  unfolding cache_run_def
proof (induction ops arbitrary: c)
  case (Cons op ops)
  then show ?case by (cases op) simp_all
qed simp

text \<open>
  C15. Whatever is looked up and stored, in any order and at any times, the cache is consistent and bounded:
  the map and the list hold the same entries, each under its own key and once, and there are never
  more of them than the configured size.
\<close>

theorem cache_bounded:
  "let c = cache_run lib ul ops (NewCache cfg) in
     Cache_Len c = int (length (evict c)) \<and>
     Cache_Len c \<le> max 0 (Size cfg) \<and>
     distinct (evict c) \<and>
     (\<forall>k i. items c k = Some i \<longleftrightarrow> i \<in> set (evict c) \<and> ce_key (elems c i) = k)"
proof -
  define c where "c = cache_run lib ul ops (NewCache cfg)"
  let ?mn = "minTTL (NewCache cfg)" and ?mx = "maxTTL (NewCache cfg)"
  have ok: "cache_ok ?mn ?mx (NewCache cfg)" by (simp add: cache_ok_def NewCache_inv)
  have inv: "cache_inv c"
    using responses.run_inv [OF ok, of lib ul ops] by (simp add: c_def cache_run_eq cache_ok_def)
  have "maxSize (cache_step lib ul op c) = maxSize c" for op c by (cases op) simp_all
  then have "maxSize (fold (cache_step lib ul) ops c) = maxSize c" for c by (induction ops arbitrary: c) simp_all
  then have size: "maxSize c \<le> max 0 (Size cfg)" by (simp add: c_def cache_run_def NewCache_def Let_def)
  have "dom (items c) = (\<lambda>i. ce_key (elems c i)) ` set (evict c)"
    using cache_invD(2) [OF inv] by (auto simp: dom_def image_iff)
  moreover have "inj_on (\<lambda>i. ce_key (elems c i)) (set (evict c))"
    using cache_inv_keys [OF inv] by (auto intro: inj_onI)
  ultimately have "Cache_Len c = int (length (evict c))"
    using cache_invD(1) [OF inv] by (simp add: Cache_Len_def card_image distinct_card)
  then show ?thesis
    unfolding c_def [symmetric] Let_def using cache_invD [OF inv] size by simp
qed

text \<open>
  C14. \<^verbatim>\<open>Get\<close> implements lookup in a least-recently-used list: the live entry of the question's key, which
  becomes the most recent one, and otherwise nothing; an entry that has expired is removed.
\<close>

theorem get_refines_lru:
  assumes "cache_inv c" "enabled c" "mQuestion req \<noteq> []"
  shows "cache_inv (snd (Get lib ul now (Some req) c)) \<and>
    (fst (Get lib ul now (Some req) c), lru_list (snd (Get lib ul now (Some req) c))) =
      lru_get lib now (mId req) (makeKey lib ul (hd (mQuestion req))) (lru_list c)"
  using Get_inv [OF assms(1)] Get_refines [OF assms] by simp

text \<open>A query, a response with one address record, and a cache of two entries.\<close>

definition example_query :: "string \<Rightarrow> msg" where
  "example_query name =
     new_msg\<lparr>mId := 7, mQuestion := [\<lparr>qName = name, qType = TypeA, qClass = ClassINET\<rparr>]\<rparr>"

definition example_answer :: "string \<Rightarrow> u32 \<Rightarrow> ip \<Rightarrow> rr" where
  "example_answer name ttl a =
     RR_A \<lparr>hName = name, hRrtype = TypeA, hClass = ClassINET, hTtl = ttl\<rparr> a"

definition example_response :: "string \<Rightarrow> u32 \<Rightarrow> msg" where
  "example_response name ttl =
     (example_query name)\<lparr>mResponse := True, mAnswer := [example_answer name ttl [93, 184, 216, 34]]\<rparr>"

definition example_cache_cfg :: cache_config where
  "example_cache_cfg = \<lparr>CacheEnabled = True, Size = 2, MinTTL = 60 * Second, MaxTTL = 86400 * Second\<rparr>"

lemma example_cacheable:
  "cacheable (example_response name ttl)" "calculateMinTTL (example_response name ttl) = ttl"
  "mQuestion (example_query name) \<noteq> []"
  by (simp_all add: cacheable_def calculateMinTTL_eq example_response_def example_answer_def
      example_query_def new_msg_def dns_consts)

lemma example_cache_enabled: "enabled (NewCache example_cache_cfg)"
  by (simp add: NewCache_def example_cache_cfg_def Let_def)

lemma get_refines_lru_witness:
  "cache_inv (snd (Get example_lib id 0 (Some (example_query ''a.b.'')) (NewCache example_cache_cfg)))"
  using get_refines_lru [OF NewCache_inv example_cache_enabled example_cacheable(3)] by blast

text \<open>
  C13. \<^verbatim>\<open>Set\<close> implements insertion into a least-recently-used list of bounded size: the new entry comes
  first; an entry with its key is replaced, and if there is none and the list is full, exactly the
  entry used longest ago is evicted.
\<close>

theorem set_refines_lru:
  assumes "cache_inv c" "enabled c" "mQuestion req \<noteq> []" "cacheable resp" "calculateMinTTL resp \<noteq> 0"
  shows "cache_inv (Set lib ul now (Some req) (Some resp) c) \<and>
    lru_list (Set lib ul now (Some req) (Some resp) c) =
      lru_put (nat (maxSize c)) (new_entry lib ul c now req resp) (lru_list c)"
  using Set_inv [OF assms(1)] Set_refines [OF assms(1)] assms(2-5) by (simp add: storable_def)

lemma set_refines_lru_witness:
  "lru_list (Set example_lib id 0 (Some (example_query ''a.b.'')) (Some (example_response ''a.b.'' 300))
      (NewCache example_cache_cfg)) =
   [new_entry example_lib id (NewCache example_cache_cfg) 0 (example_query ''a.b.'') (example_response ''a.b.'' 300)]"
proof -
  have "lru_list (NewCache example_cache_cfg) = []"
    by (simp add: lru_list_def NewCache_def Let_def)
  moreover have ttl: "calculateMinTTL (example_response ''a.b.'' 300) \<noteq> 0"
    by (simp add: example_cacheable)
  ultimately show ?thesis
    using set_refines_lru [OF NewCache_inv example_cache_enabled example_cacheable(3)
        example_cacheable(1) ttl, of example_lib id 0 "''a.b.''"]
    by (simp add: lru_put_def lru_lookup_def)
qed

text \<open>What a hit was made from, as the two properties of hits below use it.\<close>

lemma run_hit:
  assumes "fst (Get lib ul now (Some req) (cache_run lib ul ops (NewCache cfg))) = Some r"
  shows "\<exists>t q m. Put t q m \<in> set ops \<and> query_key lib ul q = query_key lib ul req \<and>
    cacheable m \<and> calculateMinTTL m \<noteq> 0 \<and>
    now \<le> expiry (minTTL (NewCache cfg)) (maxTTL (NewCache cfg)) t m \<and>
    r = serve_copy lib (mId req)
      (remaining_ttl (expiry (minTTL (NewCache cfg)) (maxTTL (NewCache cfg)) t m) now) (Copy lib m)"
proof -
  have ok: "cache_ok (minTTL (NewCache cfg)) (maxTTL (NewCache cfg)) (NewCache cfg)"
    by (simp add: cache_ok_def NewCache_inv)
  have "\<not> cache_holds (NewCache cfg) k e" for k e
    by (simp add: cache_holds_def lru_list_def NewCache_def Let_def)
  from responses.hit_origin [OF ok this assms [unfolded cache_run_eq]]
  show ?thesis unfolding cache_made_def cache_served_def by metis
qed

text \<open>
  C10. A hit is never anything but an earlier answer to the same question: after any operations, what \<^verbatim>\<open>Get\<close>
  returns is a copy of a response that was stored for the same name (up to case), type and class,
  neither truncated nor an error, that has not expired; only the ID and the TTLs differ.
\<close>

theorem cache_hit_origin:
  assumes "fst (Get lib ul now (Some req) (cache_run lib ul ops (NewCache cfg))) = Some r"
  shows "\<exists>t q m. Put t q m \<in> set ops \<and> query_key lib ul q = query_key lib ul req \<and>
    (mRcode m = RcodeSuccess \<or> mRcode m = RcodeNameError) \<and> \<not> mTruncated m \<and>
    now \<le> expiry (minTTL (NewCache cfg)) (maxTTL (NewCache cfg)) t m \<and>
    r = serve_copy lib (mId req)
      (remaining_ttl (expiry (minTTL (NewCache cfg)) (maxTTL (NewCache cfg)) t m) now) (Copy lib m)"
  using run_hit [OF assms] unfolding cacheable_def by blast

lemma example_storable: "0 < ttl \<Longrightarrow> storable (NewCache example_cache_cfg) (example_query n) (example_response n ttl)"
  by (simp add: storable_def example_cacheable example_cache_enabled)

lemma example_ttls: "minTTL (NewCache example_cache_cfg) = 60 * Second"
  "maxTTL (NewCache example_cache_cfg) = 86400 * Second"
  by (simp_all add: NewCache_def example_cache_cfg_def Let_def Second_def)

lemma seconds_u32_exact: "0 \<le> k \<Longrightarrow> k < 2 ^ 32 \<Longrightarrow> seconds_u32 (k * Second) = word_of_int k"
  by (simp add: seconds_u32_def whole_seconds_exact)

lemma Second_pos [simp]: "0 < Second"
  by (simp add: Second_def)

lemma example_expiry:
  "expiry (60 * Second) (86400 * Second) t (example_response n 300) = t + 300 * Second"
proof -
  have "seconds_u32 (60 * Second) = 60" "seconds_u32 (86400 * Second) = 86400"
    by (simp_all add: seconds_u32_exact)
  then have "stored_ttl (60 * Second) (86400 * Second) (example_response n 300) = 300"
    by (simp add: stored_ttl_def example_cacheable max_def min_def)
  then show ?thesis by (simp add: expiry_def)
qed

lemma cache_hit_origin_witness:
  "\<exists>t q m. Put t q m \<in> set [Put 0 (example_query ''a.b.'') (example_response ''a.b.'' 300)] \<and>
     query_key example_lib id q = query_key example_lib id (example_query ''a.b.'')"
proof -
  let ?c = "NewCache example_cache_cfg" and ?q = "example_query ''a.b.''" and ?m = "example_response ''a.b.'' 300"
  have "storable ?c ?q ?m" by (simp add: example_storable)
  then obtain r where "fst (Get example_lib id (5 * Second) (Some ?q) (Set example_lib id 0 (Some ?q) (Some ?m) ?c)) = Some r"
    using Get_after_Set [OF NewCache_inv _ refl, of example_cache_cfg ?q ?m "5 * Second" 0 example_lib id]
    by (simp add: example_ttls example_expiry)
  then have "fst (Get example_lib id (5 * Second) (Some ?q) (cache_run example_lib id [Put 0 ?q ?m] ?c)) = Some r"
    by (simp add: cache_run_def)
  then show ?thesis using cache_hit_origin by blast
qed

text \<open>
  What has been stored is found: after a cacheable response is stored, a query for the same name in any
  case, type and class is answered from the cache until the response expires.
\<close>

theorem cache_get_after_set:
  assumes "cache_inv c" "enabled c" "mQuestion req = [q]" "mQuestion req' = [q']"
    "to_lower ul (Fqdn lib (qName q')) = to_lower ul (Fqdn lib (qName q))"
    "qType q' = qType q" "qClass q' = qClass q" "cacheable m" "calculateMinTTL m \<noteq> 0"
    "now \<le> expiry (minTTL c) (maxTTL c) t m"
  shows "fst (Get lib ul now (Some req') (Set lib ul t (Some req) (Some m) c)) =
    Some (serve_copy lib (mId req') (remaining_ttl (expiry (minTTL c) (maxTTL c) t m) now) (Copy lib m))"
  using assms by (intro Get_after_Set) (simp_all add: storable_def query_key_def makeKey_def)

lemma cache_get_after_set_witness:
  "fst (Get example_lib id (250 * Second) (Some (example_query ''A.b''))
     (Set example_lib id 0 (Some (example_query ''a.B.'')) (Some (example_response ''a.B.'' 300))
       (NewCache example_cache_cfg))) =
   Some (serve_copy example_lib 7 50 (example_response ''a.B.'' 300))"
proof -
  have "to_lower id (Fqdn example_lib ''A.b'') = to_lower id (Fqdn example_lib ''a.B.'')"
    by code_simp
  moreover have "seconds_u32 (50 * Second) = 50" by (simp add: seconds_u32_exact)
  ultimately show ?thesis
    using cache_get_after_set [OF NewCache_inv example_cache_enabled, of "example_query ''a.B.''"
        "\<lparr>qName = ''a.B.'', qType = TypeA, qClass = ClassINET\<rparr>" "example_query ''A.b''"
        "\<lparr>qName = ''A.b'', qType = TypeA, qClass = ClassINET\<rparr>" id example_lib
        "example_response ''a.B.'' 300" "250 * Second" 0]
    by (simp add: example_cacheable example_ttls example_expiry remaining_ttl_def Let_def)
       (simp add: example_query_def example_lib_def Second_def)
qed

text \<open>
  C39. TTLs count down: when \<^verbatim>\<open>Get\<close> hits after any operations (the clock not having gone back), every TTL
  of the message it returns, OPT records aside, is the number of whole seconds the entry has left to
  live, but at least 1, and never more than the TTL the response was stored with.  The float
  arithmetic of the code makes it one second more only when \<open>2 ^ 24\<close> seconds (194 days) or more are left.
\<close>

theorem served_ttls_shrink:
  assumes "fst (Get lib ul now (Some req) (cache_run lib ul ops (NewCache cfg))) = Some r"
    "\<And>t q m. Put t q m \<in> set ops \<Longrightarrow> t \<le> now"
    "x \<in> set (mAnswer r @ mNs r @ mExtra r)" "hRrtype (rr_header x) \<noteq> TypeOPT"
  shows "\<exists>t q m. Put t q m \<in> set ops \<and> query_key lib ul q = query_key lib ul req \<and>
    (let stored = unat (stored_ttl (minTTL (NewCache cfg)) (maxTTL (NewCache cfg)) m);
         left = t + int stored * Second - now;
         served = unat (hTtl (rr_header x))
     in 0 \<le> left \<and> 1 \<le> served \<and> served \<le> stored \<and>
        (int served = max 1 (left div Second) \<or>
         2 ^ 24 \<le> left div Second \<and> int served = left div Second + 1))"
proof -
  obtain t q m where p: "Put t q m \<in> set ops" "query_key lib ul q = query_key lib ul req"
      "calculateMinTTL m \<noteq> 0"
    and live: "now \<le> expiry (minTTL (NewCache cfg)) (maxTTL (NewCache cfg)) t m"
    and r: "r = serve_copy lib (mId req)
      (remaining_ttl (expiry (minTTL (NewCache cfg)) (maxTTL (NewCache cfg)) t m) now) (Copy lib m)"
    using run_hit [OF assms(1)] by blast
  define w where "w = stored_ttl (minTTL (NewCache cfg)) (maxTTL (NewCache cfg)) m"
  define d where "d = t + int (unat w) * Second - now"
  have e: "expiry (minTTL (NewCache cfg)) (maxTTL (NewCache cfg)) t m = now + d"
    by (simp add: expiry_def w_def d_def)
  have "0 < unat w" "0 \<le> d" "d \<le> int (unat w) * Second"
    using stored_ttl_pos [OF p(3)] live assms(2) [OF p(1)] by (simp_all add: e w_def) (simp add: d_def w_def)
  note b = remaining_ttl_bounds [OF this, of now]
  have "hTtl (rr_header x) = remaining_ttl (now + d) now"
    using assms(3,4) by (auto simp: r e update_ttl_header)
  with p(1,2) b \<open>0 \<le> d\<close> show ?thesis
    unfolding w_def [symmetric] Let_def d_def [symmetric]
    by (intro exI [of _ t] exI [of _ q] exI [of _ m]) (simp add: w_def [symmetric] d_def [symmetric])
qed

lemma served_ttls_shrink_witness:
  "\<exists>r x. fst (Get example_lib id (7 * Second) (Some (example_query ''a.b.''))
      (cache_run example_lib id [Put 0 (example_query ''a.b.'') (example_response ''a.b.'' 300)]
        (NewCache example_cache_cfg))) = Some r \<and> mAnswer r = [x] \<and> 1 \<le> unat (hTtl (rr_header x))"
proof -
  let ?c = "NewCache example_cache_cfg" and ?q = "example_query ''a.b.''" and ?m = "example_response ''a.b.'' 300"
  let ?r = "serve_copy example_lib (mId ?q) (remaining_ttl (300 * Second) (7 * Second)) (Copy example_lib ?m)"
  let ?x = "update_ttl (remaining_ttl (300 * Second) (7 * Second)) (example_answer ''a.b.'' 300 [93, 184, 216, 34])"
  have "storable ?c ?q ?m" by (simp add: example_storable)
  then have hit: "fst (Get example_lib id (7 * Second) (Some ?q) (cache_run example_lib id [Put 0 ?q ?m] ?c)) = Some ?r"
    using Get_after_Set [OF NewCache_inv _ refl, of example_cache_cfg ?q ?m "7 * Second" 0 example_lib id]
    by (simp add: example_ttls example_expiry cache_run_def order_less_imp_le)
  have x: "mAnswer ?r = [?x]" "hRrtype (rr_header ?x) \<noteq> TypeOPT"
    by (simp_all add: example_response_def example_lib_def update_ttl_header example_answer_def dns_consts)
  have past: "t \<le> 7 * Second" if "Put t q m \<in> set [Put 0 ?q ?m]" for t q m
    using that by (simp add: order_less_imp_le)
  have "?x \<in> set (mAnswer ?r @ mNs ?r @ mExtra ?r)" by (simp only: x(1)) simp
  from served_ttls_shrink [OF hit past this x(2)] have "1 \<le> unat (hTtl (rr_header ?x))"
    by (auto simp: Let_def)
  then show ?thesis using hit x(1) by blast
qed

text \<open>
  The TTL of a response is the least TTL of its records, OPT records aside, and 60 seconds for a response
  without any.
\<close>

theorem min_ttl_is_minimum:
  "calculateMinTTL m =
     (let ts = map (hTtl \<circ> rr_header)
        (filter (\<lambda>r. hRrtype (rr_header r) \<noteq> TypeOPT) (mAnswer m @ mNs m @ mExtra m))
      in if ts = [] then 60 else Min (set ts))"
  using calculateMinTTL_eq [of m] by (simp only: ttls_def)

text \<open>
  Errors, truncated responses and responses with a record that must not be cached (TTL 0) leave the cache
  as it is.
\<close>

theorem uncacheable_not_stored:
  assumes "mRcode resp \<notin> {RcodeSuccess, RcodeNameError} \<or> mTruncated resp \<or>
    (\<exists>r \<in> set (mAnswer resp @ mNs resp @ mExtra resp).
       hRrtype (rr_header r) \<noteq> TypeOPT \<and> hTtl (rr_header r) = 0)"
  shows "Set lib ul now (Some req) (Some resp) c = c"
proof (cases "cacheable resp")
  case True
  then obtain r where r: "r \<in> set (mAnswer resp @ mNs resp @ mExtra resp)"
      "hRrtype (rr_header r) \<noteq> TypeOPT" "hTtl (rr_header r) = 0"
    using assms by (auto simp: cacheable_def)
  then have "0 \<in> set (ttls (mAnswer resp @ mNs resp @ mExtra resp))" by (force simp: ttls_def)
  then have "ttls (mAnswer resp @ mNs resp @ mExtra resp) \<noteq> []"
    "Min (set (ttls (mAnswer resp @ mNs resp @ mExtra resp))) \<le> 0"
    by (metis empty_iff empty_set, metis List.finite_set Min_le)
  then have "calculateMinTTL resp = 0" unfolding calculateMinTTL_eq Let_def by (simp only: if_False word_le_0_iff)
  then show ?thesis by (simp add: Set_cases storable_def)
qed (simp add: Set_cases storable_def)

lemma uncacheable_not_stored_witness:
  "Set example_lib id 0 (Some (example_query ''a.'')) (Some (example_response ''a.'' 0)) (NewCache example_cache_cfg) =
     NewCache example_cache_cfg"
  by (rule uncacheable_not_stored) (simp add: example_response_def example_answer_def dns_consts)

end
