(* ===== verification/Go_Context.thy ===== *)
theory Go_Context
  imports Config
begin

text \<open>
  The part of package \<^verbatim>\<open>context\<close> that the program uses: a context with an optional deadline (a reading of
  the clock, in nanoseconds) which may have been cancelled.  A context does not act by itself: the
  calls of the network get it as an argument and stop when it is done.
\<close>

record go_ctx =
  cx_deadline :: "int option"
  cx_cancelled :: bool

definition background :: go_ctx where
  "background = \<lparr>cx_deadline = None, cx_cancelled = False\<rparr>"

text \<open>\<^verbatim>\<open>context.WithTimeout\<close> at the time \<open>now\<close>: the parent's deadline still counts if it is earlier.\<close>

definition with_timeout :: "go_ctx \<Rightarrow> int \<Rightarrow> duration \<Rightarrow> go_ctx" where
  "with_timeout ctx now t =
     ctx\<lparr>cx_deadline := Some (case cx_deadline ctx of None \<Rightarrow> now + t | Some d \<Rightarrow> min d (now + t))\<rparr>"

text \<open>The call of the function that \<^verbatim>\<open>context.WithCancel\<close> returns.\<close>

definition cancel :: "go_ctx \<Rightarrow> go_ctx" where
  "cancel ctx = ctx\<lparr>cx_cancelled := True\<rparr>"

text \<open>The context lasts at least \<open>t\<close> nanoseconds more.\<close>

definition has_time :: "go_ctx \<Rightarrow> int \<Rightarrow> duration \<Rightarrow> bool" where
  "has_time ctx now t \<longleftrightarrow>
     \<not> cx_cancelled ctx \<and> (case cx_deadline ctx of None \<Rightarrow> True | Some d \<Rightarrow> now + t \<le> d)"

lemma has_time_background [simp]: "has_time background now t"
  by (simp add: has_time_def background_def)

lemma has_time_with_timeout [simp]:
  "has_time (with_timeout ctx start timeout) now t \<longleftrightarrow> has_time ctx now t \<and> now + t \<le> start + timeout"
  by (auto simp: has_time_def with_timeout_def split: option.splits)

lemma has_time_mono: "has_time ctx now t \<Longrightarrow> now' + t' \<le> now + t \<Longrightarrow> has_time ctx now' t'"
  by (auto simp: has_time_def split: option.splits)

lemma deadline_with_timeout:
  "cx_deadline (with_timeout ctx start timeout) = Some d \<Longrightarrow>
     d \<le> start + timeout \<and> (\<forall>d'. cx_deadline ctx = Some d' \<longrightarrow> d \<le> d')"
  "cx_deadline ctx = Some d' \<Longrightarrow> cx_deadline (with_timeout ctx start timeout) = Some (min d' (start + timeout))"
  "cx_deadline ctx = None \<Longrightarrow> cx_deadline (with_timeout ctx start timeout) = Some (start + timeout)"
  by (auto simp: with_timeout_def split: option.splits)

end
