(* ===== verification/Retry.thy ===== *)
theory Retry
  imports Go_Prelude
begin

text \<open>
  The loop that the upstream clients share: try targets one after the other, take the first that
  answers without an error, remember the last error.  The order is a rotation of the configured
  targets that starts at a counter, or the configured order.  An attempt returns Go's pair of a
  result and an error, where both may be nil.
\<close>

fun try_each ::
  "('t \<Rightarrow> 's \<Rightarrow> ('a option \<times> 'e option) \<times> 's) \<Rightarrow> 't list \<Rightarrow> 'e option \<Rightarrow> 's \<Rightarrow>
     ('e option + 'a) \<times> 's" where
  "try_each attempt [] lastErr s = (Inl lastErr, s)"
| "try_each attempt (t # ts) lastErr s =
     (let ((resp, err), s') = attempt t s in
      if err = None \<and> resp \<noteq> None then (Inr (the resp), s')
      else try_each attempt ts err s')"

lemma try_each_ok:
  "attempt t s = ((Some r, None), s1) \<Longrightarrow> try_each attempt (t # ts) lastErr s = (Inr r, s1)"
  by simp

lemma try_each_fail:
  "attempt t s = ((resp, err), s1) \<Longrightarrow> err \<noteq> None \<or> resp = None \<Longrightarrow>
     try_each attempt (t # ts) lastErr s = try_each attempt ts err s1"
  by auto

text \<open>The targets at \<^verbatim>\<open>(start + i) % n\<close> for \<^verbatim>\<open>i\<close> from 0 to \<^verbatim>\<open>n - 1\<close>.\<close>

definition rotation :: "nat \<Rightarrow> nat \<Rightarrow> nat list" where
  "rotation start n = map (\<lambda>i. (start + i) mod n) [0..<n]"

definition rotated :: "nat \<Rightarrow> 't list \<Rightarrow> 't list" where
  "rotated start ts = map ((!) ts) (rotation start (length ts))"

section \<open>Rotations\<close>

lemma length_rotation [simp]: "length (rotation start n) = n"
  by (simp add: rotation_def)

lemma rotation_eq: "start < n \<Longrightarrow> rotation start n = [start..<n] @ [0..<start]"
  by (rule nth_equalityI) (auto simp: rotation_def nth_append mod_if)

lemma rotated_eq: "start < length ts \<Longrightarrow> rotated start ts = drop start ts @ take start ts"
proof -
  assume "start < length ts"
  moreover have "map ((!) ts) [0..<start] = take start ts" if "start \<le> length ts"
    using that by (intro nth_equalityI) auto
  moreover have "map ((!) ts) [start..<length ts] = drop start ts"
    by (intro nth_equalityI) auto
  ultimately show ?thesis by (simp add: rotated_def rotation_eq)
qed

lemma mset_rotation: "start < n \<Longrightarrow> distinct (rotation start n) \<and> set (rotation start n) = {0..<n}"
  by (auto simp: rotation_eq)

lemma set_rotated: "start < length ts \<Longrightarrow> set (rotated start ts) = set ts"
  by (metis append_take_drop_id rotated_eq set_append sup_commute)

lemma hd_rotation: "start < n \<Longrightarrow> hd (rotation start n) = start"
  by (simp add: rotation_eq)

section \<open>The loop\<close>

text \<open>
  What the clients conclude from a loop: \<open>inv\<close> holds between attempts, and an answer taken from
  target \<open>t\<close> is a \<open>good\<close> one.
\<close>

locale retry_loop =
  fixes attempt :: "'t \<Rightarrow> 's \<Rightarrow> ('a option \<times> 'e option) \<times> 's"
    and inv :: "'s \<Rightarrow> bool"
    and good :: "'t \<Rightarrow> 'a \<Rightarrow> bool"
  assumes attempt_inv: "inv s \<Longrightarrow> inv (snd (attempt t s))"
    and attempt_good: "inv s \<Longrightarrow> fst (attempt t s) = (Some r, None) \<Longrightarrow> good t r"
begin

lemma try_each_inv: "inv s \<Longrightarrow> inv (snd (try_each attempt ts lastErr s))"
proof (induction ts arbitrary: s lastErr)
  case (Cons t ts)
  obtain resp err s1 where a: "attempt t s = ((resp, err), s1)" by (metis prod.exhaust)
  then have "inv s1" using attempt_inv [OF Cons.prems, of t] by simp
  with a show ?case
    using Cons.IH try_each_fail [of attempt t s resp err s1]
    by (cases "err \<noteq> None \<or> resp = None") auto
qed simp

text \<open>Success: the answer is that of a target which answered after all targets before it had failed.\<close>

lemma try_each_Inr:
  "inv s \<Longrightarrow> try_each attempt ts lastErr s = (Inr r, s') \<Longrightarrow>
     \<exists>us t vs e s1. ts = us @ t # vs \<and> try_each attempt us lastErr s = (Inl e, s1) \<and>
       attempt t s1 = ((Some r, None), s') \<and> inv s1 \<and> good t r"
proof (induction ts arbitrary: s lastErr)
  case (Cons t ts)
  obtain resp err s1 where a: "attempt t s = ((resp, err), s1)" by (metis prod.exhaust)
  have inv1: "inv s1" using attempt_inv [OF Cons.prems(1), of t] a by simp
  show ?case
  proof (cases "err = None \<and> resp \<noteq> None")
    case True
    then have r: "attempt t s = ((Some r, None), s')" using Cons.prems(2) a by auto
    then have "good t r" using attempt_good [OF Cons.prems(1)] by simp
    with r Cons.prems(1) show ?thesis by (intro exI [of _ "[]"]) auto
  next
    case False
    then have "try_each attempt ts err s1 = (Inr r, s')"
      using Cons.prems(2) try_each_fail [of attempt t s resp err s1 ts lastErr] a by auto
    from Cons.IH [OF inv1 this] obtain us t' vs e s2 where
      "ts = us @ t' # vs" "try_each attempt us err s1 = (Inl e, s2)"
      "attempt t' s2 = ((Some r, None), s')" "inv s2" "good t' r" by blast
    moreover from this have "try_each attempt (t # us) lastErr s = (Inl e, s2)" using a False by simp
    ultimately show ?thesis by (intro exI [of _ "t # us"]) auto
  qed
qed simp

text \<open>Failure: every target was tried, in order, and none answered; the error is the last one's.\<close>

lemma try_each_Inl:
  "try_each attempt (us @ t # vs) lastErr s = (Inl e, s') \<Longrightarrow>
     \<exists>e1 s1 resp err s2. try_each attempt us lastErr s = (Inl e1, s1) \<and>
       attempt t s1 = ((resp, err), s2) \<and> \<not> (err = None \<and> resp \<noteq> None) \<and>
       try_each attempt vs err s2 = (Inl e, s')"
proof (induction us arbitrary: s lastErr)
  case Nil
  then show ?case by (auto split: prod.splits if_splits)
next
  case (Cons u us)
  then show ?case by (auto split: prod.splits if_splits)
qed

text \<open>The whole failing run: the states between the attempts, each of which failed; the error is the last one's.\<close>

lemma try_each_Inl_run:
  "try_each attempt ts lastErr s = (Inl e, s') \<Longrightarrow>
     \<exists>ss. length ss = Suc (length ts) \<and> ss ! 0 = s \<and> ss ! length ts = s' \<and>
       (\<forall>i < length ts. \<exists>resp err. attempt (ts ! i) (ss ! i) = ((resp, err), ss ! Suc i) \<and>
          \<not> (err = None \<and> resp \<noteq> None) \<and> (Suc i = length ts \<longrightarrow> err = e))"
proof (induction ts arbitrary: s lastErr)
  case Nil
  then show ?case by (intro exI [of _ "[s]"]) simp
next
  case (Cons t ts)
  obtain resp err s1 where a: "attempt t s = ((resp, err), s1)" by (metis prod.exhaust)
  with Cons.prems have f: "\<not> (err = None \<and> resp \<noteq> None)" "try_each attempt ts err s1 = (Inl e, s')"
    by (auto split: if_splits)
  from Cons.IH [OF f(2)] obtain ss where ss: "length ss = Suc (length ts)" "ss ! 0 = s1" "ss ! length ts = s'"
    "\<forall>i < length ts. \<exists>resp err. attempt (ts ! i) (ss ! i) = ((resp, err), ss ! Suc i) \<and>
       \<not> (err = None \<and> resp \<noteq> None) \<and> (Suc i = length ts \<longrightarrow> err = e)" by blast
  have "ts = [] \<longrightarrow> err = e" using f(2) by auto
  then show ?case
    using a f(1) ss by (intro exI [of _ "s # ss"]) (auto simp: nth_Cons less_Suc_eq_0_disj split: nat.split)
qed

text \<open>
  One target that answers is enough, if the attempts before it leave a state in which it does: \<open>J j\<close>
  holds before the attempt number \<open>j\<close>.
\<close>

lemma try_each_reaches:
  assumes "inv s" "J 0 s"
    and "\<And>j s. j < length us \<Longrightarrow> inv s \<Longrightarrow> J j s \<Longrightarrow> J (Suc j) (snd (attempt (us ! j) s))"
    and "\<And>s. inv s \<Longrightarrow> J (length us) s \<Longrightarrow> \<exists>r. fst (attempt t s) = (Some r, None)"
  shows "\<exists>r s'. try_each attempt (us @ t # vs) lastErr s = (Inr r, s')"
  using assms
proof (induction us arbitrary: s lastErr J)
  case Nil
  then obtain r where "fst (attempt t s) = (Some r, None)" by auto
  then have "attempt t s = ((Some r, None), snd (attempt t s))" by (metis prod.collapse)
  then show ?case using try_each_ok by fastforce
next
  case (Cons u us)
  obtain resp err s1 where a: "attempt u s = ((resp, err), s1)" by (metis prod.exhaust)
  have s1: "inv s1" "J 1 s1"
    using attempt_inv [OF Cons.prems(1), of u] Cons.prems(3) [of 0 s] Cons.prems(1,2) a by simp_all
  have step: "J (Suc (Suc j)) (snd (attempt (us ! j) s))" if "j < length us" "inv s" "J (Suc j) s" for j s
    using Cons.prems(3) [of "Suc j" s] that by simp
  have "\<exists>r s'. try_each attempt (us @ t # vs) err s1 = (Inr r, s')"
    using Cons.IH [of s1 "\<lambda>j. J (Suc j)" err] s1 step Cons.prems(4) by simp
  then show ?case
    using try_each_fail [of attempt u s resp err s1] a by (cases "err = None \<and> resp \<noteq> None") auto
qed

text \<open>If every attempt fails in the state the ones before it leave, the loop fails.\<close>

lemma try_each_all_fail:
  assumes "inv s" "J 0 s"
    and "\<And>j s. j < length ts \<Longrightarrow> inv s \<Longrightarrow> J j s \<Longrightarrow>
      J (Suc j) (snd (attempt (ts ! j) s)) \<and> (\<nexists>r. fst (attempt (ts ! j) s) = (Some r, None))"
  shows "\<exists>e s'. try_each attempt ts lastErr s = (Inl e, s')"
  using assms
proof (induction ts arbitrary: s lastErr J)
  case (Cons t ts)
  obtain resp err s1 where a: "attempt t s = ((resp, err), s1)" by (metis prod.exhaust)
  have s1: "inv s1" "J 1 s1" "err \<noteq> None \<or> resp = None"
    using attempt_inv [OF Cons.prems(1), of t] Cons.prems(3) [of 0 s] Cons.prems(1,2) a by auto
  have step: "J (Suc (Suc j)) (snd (attempt (ts ! j) s)) \<and> (\<nexists>r. fst (attempt (ts ! j) s) = (Some r, None))"
    if "j < length ts" "inv s" "J (Suc j) s" for j s
    using Cons.prems(3) [of "Suc j" s] that by simp
  from Cons.IH [of s1 "\<lambda>j. J (Suc j)" err] s1(1,2) step
  have "\<exists>e s'. try_each attempt ts err s1 = (Inl e, s')" by simp
  then show ?case using try_each_fail [of attempt t s resp err s1, OF a s1(3)] by simp
qed simp

end

end
