(* ===== verification/Resolvers.thy ===== *)
theory Resolvers
  imports Dns_Msg Go_Context Retry
begin

text \<open>
  \<^verbatim>\<open>internal/upstream/dot.go\<close>, \<^verbatim>\<open>internal/upstream/doh.go\<close> and lines 17 to 96 of
  \<^verbatim>\<open>internal/upstream/forwarder.go\<close>: the three kinds of upstream resolver and their bootstrap addresses.

  The network is outside the repository.  Its state is a value \<open>'w\<close> that every call takes and returns,
  and the record \<open>net_env\<close> gives the calls: \<^verbatim>\<open>dns.Client.ExchangeContext\<close> of miekg/dns for a context, the
  client's transport and timeout, an address and a message, the dialer of package \<^verbatim>\<open>net\<close>,
  \<^verbatim>\<open>http.Client.Do\<close> (which dials through the callback that the program installs), packing and unpacking of
  wire messages, \<^verbatim>\<open>url.Parse\<close>, and the clock.  Any of them may fail with an error of the opaque type \<open>'e\<close>;
  what a deadline or a cancellation does to a call is its own affair, and the properties that depend on
  it say so.  The atomic counters are \<open>uint64\<close> values in the resolver.
\<close>

section \<open>Environment\<close>

datatype transport = Net_UDP | Net_TCP | Net_TLS string

record url =
  u_scheme :: string
  u_hostname :: string
  u_port :: string

record http_request =
  hr_method :: string
  hr_url :: string
  hr_headers :: "(string \<times> string) list"
  hr_body :: string

record 'e http_reply =
  rp_status :: int
  rp_body :: "'e + string"

datatype 'e dial_err = BootstrapDialErr string "'e option" | DialErr 'e

type_synonym ('w, 'c, 'e) dialer =
  "go_ctx \<Rightarrow> string \<Rightarrow> string \<Rightarrow> u64 \<times> 'w \<Rightarrow> ('e dial_err + 'c) \<times> (u64 \<times> 'w)"

record ('w, 'c, 'e) net_env =
  ne_lib :: dnslib
  ne_lower :: "string \<Rightarrow> string"
  ne_fold :: "string \<Rightarrow> string \<Rightarrow> bool"
  ne_now :: "'w \<Rightarrow> int"
  ne_parse_url :: "string \<Rightarrow> url option"
  ne_exchange :: "go_ctx \<Rightarrow> transport \<Rightarrow> duration \<Rightarrow> string \<Rightarrow> msg \<Rightarrow> 'w \<Rightarrow> (msg option \<times> 'e option) \<times> 'w"
  ne_dial :: "duration \<Rightarrow> go_ctx \<Rightarrow> string \<Rightarrow> string \<Rightarrow> 'w \<Rightarrow> ('e + 'c) \<times> 'w"
  ne_pack :: "msg \<Rightarrow> 'e + string"
  ne_unpack :: "string \<Rightarrow> 'e + msg"
  ne_new_request :: "string \<Rightarrow> 'e option"
  ne_do :: "('w, 'c, 'e) dialer \<Rightarrow> duration \<Rightarrow> go_ctx \<Rightarrow> http_request \<Rightarrow> u64 \<times> 'w \<Rightarrow> ('e + 'e http_reply) \<times> (u64 \<times> 'w)"

datatype 'e up_err =
    StdErr string 'e
  | DotBootstrapErr string "'e option"
  | DotErr string 'e
  | PackErr 'e
  | HttpRequestErr 'e
  | DohPostErr 'e
  | DohStatusErr int
  | DohBodyErr 'e
  | DohUnpackErr 'e

section \<open>Resolvers\<close>

record std_resolver =
  sr_address :: string
  sr_timeout :: duration

record dot_client =
  dc_endpoint :: string
  dc_host :: string
  dc_port :: string
  dc_bootstrapIPs :: "string list"
  dc_ipCounter :: u64
  dc_timeout :: duration

record doh_client =
  hc_endpoint :: string
  hc_host :: string
  hc_port :: string
  hc_bootstrapIPs :: "string list"
  hc_ipCounter :: u64
  hc_timeout :: duration

datatype resolver = Standard std_resolver | DoT dot_client | DoH doh_client

fun Address :: "resolver \<Rightarrow> string" where
  "Address (Standard r) = sr_address r"
| "Address (DoT c) = dc_endpoint c"
| "Address (DoH c) = hc_endpoint c"

section \<open>Construction\<close>

definition wellKnownBootstrapIPs :: "string \<Rightarrow> string list option" where
  "wellKnownBootstrapIPs =
     [''dns.quad9.net'' \<mapsto> [''9.9.9.9'', ''149.112.112.112'', ''2620:fe::fe'', ''2620:fe::9''],
      ''cloudflare-dns.com'' \<mapsto>
        [''1.1.1.1'', ''1.0.0.1'', ''2606:4700:4700::1111'', ''2606:4700:4700::1001''],
      ''dns.mullvad.net'' \<mapsto>
        [''194.242.2.2'', ''194.242.2.3'', ''2a07:e340::2'', ''2a07:e340::3''],
      ''dns.google'' \<mapsto>
        [''8.8.8.8'', ''8.8.4.4'', ''2001:4860:4860::8888'', ''2001:4860:4860::8844''],
      ''dns.adguard-dns.com'' \<mapsto>
        [''94.140.14.14'', ''94.140.15.15'', ''2a10:50c0::ad1:ff'', ''2a10:50c0::ad2:ff'']]"

text \<open>
  The bootstrap addresses of a host, the same steps in both constructors: the host itself if it is an
  address, the configured ones of the host, the well-known ones if there are none so far, and the
  general ones.
\<close>

definition resolve_bootstraps ::
  "(string \<Rightarrow> string) \<Rightarrow> string \<Rightarrow> string list \<Rightarrow> (string \<Rightarrow> string list option) \<Rightarrow> string list" where
  "resolve_bootstraps ul host customBootstrapIPs bootstrapMap =
     (let ips = (if ParseIP host \<noteq> None then [host] else []);
          ips = (case bootstrapMap host of
                   Some b \<Rightarrow> if length b > 0 then ips @ b else ips
                 | None \<Rightarrow> ips);
          ips = (if length ips = 0 then
                   (case wellKnownBootstrapIPs (to_lower ul host) of
                      Some b \<Rightarrow> if length b > 0 then ips @ b else ips
                    | None \<Rightarrow> ips)
                 else ips);
          ips = (if length customBootstrapIPs > 0 then ips @ customBootstrapIPs else ips)
      in ips)"

definition NewStandardResolver :: "string \<Rightarrow> duration \<Rightarrow> resolver" where
  "NewStandardResolver addr timeout =
     (let addr = (case SplitHostPort addr of None \<Rightarrow> JoinHostPort addr ''53'' | Some _ \<Rightarrow> addr)
      in Standard \<lparr>sr_address = addr, sr_timeout = timeout\<rparr>)"

definition NewDoTClient ::
  "('w, 'c, 'e) net_env \<Rightarrow> string \<Rightarrow> duration \<Rightarrow> string list \<Rightarrow>
     (string \<Rightarrow> string list option) \<Rightarrow> resolver" where
  "NewDoTClient env endpoint timeout customBootstrapIPs bootstrapMap =
     (let raw = trim_prefix endpoint ''tls://'';
          (host, port) =
            (if contains_str raw ''://'' then
               (case ne_parse_url env raw of
                  Some u \<Rightarrow> (u_hostname u, u_port u)
                | None \<Rightarrow> ([], []))
             else
               (case SplitHostPort raw of
                  Some (h, p) \<Rightarrow> (h, p)
                | None \<Rightarrow> (raw, ''853'')));
          port = (if port = [] then ''853'' else port)
      in DoT \<lparr>dc_endpoint = endpoint, dc_host = host, dc_port = port,
              dc_bootstrapIPs = resolve_bootstraps (ne_lower env) host customBootstrapIPs bootstrapMap,
              dc_ipCounter = 0, dc_timeout = timeout\<rparr>)"

definition NewDoHClient ::
  "('w, 'c, 'e) net_env \<Rightarrow> string \<Rightarrow> duration \<Rightarrow> string list \<Rightarrow>
     (string \<Rightarrow> string list option) \<Rightarrow> doh_client" where
  "NewDoHClient env endpoint timeout customBootstrapIPs bootstrapMap =
     (let (host, port) =
            (case ne_parse_url env endpoint of
               Some u \<Rightarrow>
                 (u_hostname u,
                  if u_port u = [] then (if u_scheme u = ''https'' then ''443'' else ''80'') else u_port u)
             | None \<Rightarrow> ([], []))
      in \<lparr>hc_endpoint = endpoint, hc_host = host, hc_port = port,
          hc_bootstrapIPs = resolve_bootstraps (ne_lower env) host customBootstrapIPs bootstrapMap,
          hc_ipCounter = 0, hc_timeout = timeout\<rparr>)"

definition NewDoHResolver ::
  "('w, 'c, 'e) net_env \<Rightarrow> string \<Rightarrow> duration \<Rightarrow> string list \<Rightarrow>
     (string \<Rightarrow> string list option) \<Rightarrow> resolver" where
  "NewDoHResolver env endpoint timeout bootstrapIPs bootstrapMap =
     DoH (NewDoHClient env endpoint timeout bootstrapIPs bootstrapMap)"

section \<open>Exchange\<close>

definition std_exchange ::
  "('w, 'c, 'e) net_env \<Rightarrow> go_ctx \<Rightarrow> std_resolver \<Rightarrow> msg \<Rightarrow> 'w \<Rightarrow> (msg option \<times> 'e up_err option) \<times> 'w" where
  "std_exchange env ctx r req w =
     (let ((resp, err), w) = ne_exchange env ctx Net_UDP (sr_timeout r) (sr_address r) req w in
      if err = None then
        (if (case resp of Some m \<Rightarrow> mTruncated m | None \<Rightarrow> False) then
           (let ((respTCP, errTCP), w) = ne_exchange env ctx Net_TCP (sr_timeout r) (sr_address r) req w
            in if errTCP = None then ((respTCP, None), w) else ((resp, None), w))
         else ((resp, None), w))
      else
        (let ((resp, err), w) = ne_exchange env ctx Net_TCP (sr_timeout r) (sr_address r) req w
         in case err of
              Some e \<Rightarrow> ((None, Some (StdErr (sr_address r) e)), w)
            | None \<Rightarrow> ((resp, None), w)))"

text \<open>\<^verbatim>\<open>int(atomic.AddUint64(&counter, 1) % uint64(n))\<close>, with the new counter.\<close>

definition next_start :: "u64 \<Rightarrow> nat \<Rightarrow> u64 \<times> nat" where
  "next_start counter n = (let counter = counter + 1 in (counter, unat (counter mod of_nat n)))"

definition restore_id :: "msg \<Rightarrow> msg \<Rightarrow> msg" where
  "restore_id req resp = resp\<lparr>mId := mId req\<rparr>"

definition dot_attempt ::
  "('w, 'c, 'e) net_env \<Rightarrow> go_ctx \<Rightarrow> dot_client \<Rightarrow> msg \<Rightarrow> string \<Rightarrow> 'w \<Rightarrow> (msg option \<times> 'e option) \<times> 'w" where
  "dot_attempt env ctx c req targetIP w =
     (let targetAddr = JoinHostPort targetIP (dc_port c);
          ((resp, err), w) = ne_exchange env ctx (Net_TLS (dc_host c)) (dc_timeout c) targetAddr req w
      in case (resp, err) of
           (Some m, None) \<Rightarrow> ((Some (restore_id req m), None), w)
         | _ \<Rightarrow> ((resp, err), w))"

definition dot_exchange ::
  "('w, 'c, 'e) net_env \<Rightarrow> go_ctx \<Rightarrow> dot_client \<Rightarrow> msg \<Rightarrow> 'w \<Rightarrow>
     (msg option \<times> 'e up_err option) \<times> dot_client \<times> 'w" where
  "dot_exchange env ctx c req w =
     (if length (dc_bootstrapIPs c) > 0 then
        (let n = length (dc_bootstrapIPs c);
             (ctr, startIdx) = next_start (dc_ipCounter c) n;
             c = c\<lparr>dc_ipCounter := ctr\<rparr>
         in case try_each (dot_attempt env ctx c req) (rotated startIdx (dc_bootstrapIPs c)) None w of
              (Inr resp, w) \<Rightarrow> ((Some resp, None), c, w)
            | (Inl lastErr, w) \<Rightarrow> ((None, Some (DotBootstrapErr (dc_host c) lastErr)), c, w))
      else
        (let targetAddr = JoinHostPort (dc_host c) (dc_port c);
             ((resp, err), w) = ne_exchange env ctx (Net_TLS (dc_host c)) (dc_timeout c) targetAddr req w
         in case err of
              Some e \<Rightarrow> ((None, Some (DotErr targetAddr e)), c, w)
            | None \<Rightarrow> ((map_option (restore_id req) resp, None), c, w)))"

definition dial_attempt ::
  "('w, 'c, 'e) net_env \<Rightarrow> duration \<Rightarrow> go_ctx \<Rightarrow> string \<Rightarrow> string \<Rightarrow> string \<Rightarrow> 'w \<Rightarrow> ('c option \<times> 'e option) \<times> 'w" where
  "dial_attempt env timeout ctx network reqPort targetIP w =
     (case ne_dial env timeout ctx network (JoinHostPort targetIP reqPort) w of
        (Inr conn, w) \<Rightarrow> ((Some conn, None), w)
      | (Inl e, w) \<Rightarrow> ((None, Some e), w))"

definition dialContext :: "('w, 'c, 'e) net_env \<Rightarrow> doh_client \<Rightarrow> ('w, 'c, 'e) dialer" where
  "dialContext env c ctx network addr = (\<lambda>(ctr, w).
     (let (reqHost, reqPort) =
            (case SplitHostPort addr of Some (h, p) \<Rightarrow> (h, p) | None \<Rightarrow> (addr, hc_port c))
      in if equal_fold (ne_fold env) reqHost (hc_host c) \<and> length (hc_bootstrapIPs c) > 0 then
           (let n = length (hc_bootstrapIPs c);
                (ctr, startIdx) = next_start ctr n
            in case try_each (dial_attempt env (hc_timeout c) ctx network reqPort) (rotated startIdx (hc_bootstrapIPs c)) None w of
                 (Inr conn, w) \<Rightarrow> (Inr conn, (ctr, w))
               | (Inl lastErr, w) \<Rightarrow> (Inl (BootstrapDialErr (hc_host c) lastErr), (ctr, w)))
         else
           (case ne_dial env (hc_timeout c) ctx network addr w of
              (Inr conn, w) \<Rightarrow> (Inr conn, (ctr, w))
            | (Inl e, w) \<Rightarrow> (Inl (DialErr e), (ctr, w)))))"

definition doh_request :: "string \<Rightarrow> string \<Rightarrow> http_request" where
  "doh_request endpoint wire =
     \<lparr>hr_method = ''POST'', hr_url = endpoint,
      hr_headers = [(''Content-Type'', ''application/dns-message''), (''Accept'', ''application/dns-message''),
        (''User-Agent'', ''TuxDNS-Hole/1.0 (+https://github.com/tuxdns/tuxdnshole)'')],
      hr_body = wire\<rparr>"

definition doh_exchange ::
  "('w, 'c, 'e) net_env \<Rightarrow> go_ctx \<Rightarrow> doh_client \<Rightarrow> msg \<Rightarrow> 'w \<Rightarrow>
     (msg option \<times> 'e up_err option) \<times> doh_client \<times> 'w" where
  "doh_exchange env ctx c req w =
     (case ne_pack env req of
        Inl e \<Rightarrow> ((None, Some (PackErr e)), c, w)
      | Inr wire \<Rightarrow>
          (case ne_new_request env (hc_endpoint c) of
             Some e \<Rightarrow> ((None, Some (HttpRequestErr e)), c, w)
           | None \<Rightarrow>
               (let (reply, ctr, w) =
                      ne_do env (dialContext env c) (hc_timeout c) ctx (doh_request (hc_endpoint c) wire)
                        (hc_ipCounter c, w);
                    c = c\<lparr>hc_ipCounter := ctr\<rparr>
                in case reply of
                     Inl e \<Rightarrow> ((None, Some (DohPostErr e)), c, w)
                   | Inr rp \<Rightarrow>
                       if rp_status rp \<noteq> 200 then ((None, Some (DohStatusErr (rp_status rp))), c, w)
                       else
                         (case rp_body rp of
                            Inl e \<Rightarrow> ((None, Some (DohBodyErr e)), c, w)
                          | Inr body \<Rightarrow>
                              (case ne_unpack env body of
                                 Inl e \<Rightarrow> ((None, Some (DohUnpackErr e)), c, w)
                               | Inr respMsg \<Rightarrow> ((Some (restore_id req respMsg), None), c, w))))))"

fun Exchange ::
  "('w, 'c, 'e) net_env \<Rightarrow> go_ctx \<Rightarrow> msg \<Rightarrow> resolver \<Rightarrow> 'w \<Rightarrow>
     (msg option \<times> 'e up_err option) \<times> resolver \<times> 'w" where
  "Exchange env ctx req (Standard r) w = (let (res, w) = std_exchange env ctx r req w in (res, Standard r, w))"
| "Exchange env ctx req (DoT c) w = (let (res, c, w) = dot_exchange env ctx c req w in (res, DoT c, w))"
| "Exchange env ctx req (DoH c) w = (let (res, c, w) = doh_exchange env ctx c req w in (res, DoH c, w))"

section \<open>What the resolvers guarantee\<close>

text \<open>A resolver without its counter: an exchange changes nothing else of it.\<close>

fun erase :: "resolver \<Rightarrow> resolver" where
  "erase (Standard r) = Standard r"
| "erase (DoT c) = DoT (c\<lparr>dc_ipCounter := 0\<rparr>)"
| "erase (DoH c) = DoH (c\<lparr>hc_ipCounter := 0\<rparr>)"

interpretation dot: retry_loop "dot_attempt env ctx c req" "\<lambda>w. True" "\<lambda>ip r. mId r = mId req"
  for env ctx c req
  by unfold_locales (auto simp: dot_attempt_def restore_id_def Let_def split: prod.splits option.splits)

lemma std_exchange_exclusive: "fst (std_exchange env ctx r req w) = (resp, Some e) \<Longrightarrow> resp = None"
  by (auto simp: std_exchange_def Let_def split: prod.splits option.splits if_splits)

lemma dot_exchange_cases:
  assumes "dot_exchange env ctx c req w = ((resp, err), c', w')"
  shows "(err \<noteq> None \<longrightarrow> resp = None) \<and> erase (DoT c') = erase (DoT c) \<and>
    (\<forall>r. resp = Some r \<longrightarrow> mId r = mId req)"
proof (cases "length (dc_bootstrapIPs c) > 0")
  case True
  obtain ctr st where ns: "next_start (dc_ipCounter c) (length (dc_bootstrapIPs c)) = (ctr, st)"
    by (metis prod.exhaust)
  define c1 where "c1 = c\<lparr>dc_ipCounter := ctr\<rparr>"
  obtain res w1 where t: "try_each (dot_attempt env ctx c1 req) (rotated st (dc_bootstrapIPs c1)) None w = (res, w1)"
    by (metis prod.exhaust)
  have eq: "dot_exchange env ctx c req w =
      (case res of Inr resp \<Rightarrow> ((Some resp, None), c1, w1)
       | Inl lastErr \<Rightarrow> ((None, Some (DotBootstrapErr (dc_host c1) lastErr)), c1, w1))"
    using True t [unfolded c1_def] by (cases res) (simp_all add: dot_exchange_def Let_def ns c1_def)
  show ?thesis
  proof (cases res)
    case (Inl e)
    then show ?thesis using assms eq by (auto simp: c1_def)
  next
    case (Inr r)
    then have "mId r = mId req" using dot.try_each_Inr [OF _ t [unfolded Inr]] by blast
    then show ?thesis using assms eq Inr by (auto simp: c1_def)
  qed
next
  case False
  then show ?thesis
    using assms
    by (auto simp: dot_exchange_def Let_def restore_id_def split: prod.splits option.splits)
qed

lemma doh_exchange_cases:
  assumes "doh_exchange env ctx c req w = ((resp, err), c', w')"
  shows "(err \<noteq> None \<longrightarrow> resp = None) \<and> (resp = None \<longrightarrow> err \<noteq> None) \<and>
    erase (DoH c') = erase (DoH c) \<and> (\<forall>r. resp = Some r \<longrightarrow> mId r = mId req)"
  using assms
  by (auto simp: doh_exchange_def Let_def restore_id_def
      split: prod.splits option.splits sum.splits if_splits)

lemma Exchange_cases:
  assumes "Exchange env ctx req res w = ((resp, err), res', w')"
  shows "(err \<noteq> None \<longrightarrow> resp = None) \<and> erase res' = erase res"
proof (cases res)
  case (Standard r)
  then show ?thesis
    using assms std_exchange_exclusive [of env ctx r req w] by (auto split: prod.splits)
next
  case (DoT c)
  then show ?thesis using assms dot_exchange_cases [of env ctx c req w] by (auto split: prod.splits)
next
  case (DoH c)
  then show ?thesis using assms doh_exchange_cases [of env ctx c req w] by (auto split: prod.splits)
qed

lemma Address_erase: "erase res' = erase res \<Longrightarrow> Address res' = Address res"
proof -
  have "Address (erase r) = Address r" for r by (cases r) simp_all
  then show "erase res' = erase res \<Longrightarrow> ?thesis" by metis
qed

section \<open>A concrete network\<close>

text \<open>
  For the witnesses: the world is the list of the addresses called so far; the addresses in \<open>up\<close> answer,
  with a message that has lost its ID.
\<close>

definition example_net :: "string set \<Rightarrow> (string list, string, string) net_env" where
  "example_net up =
     \<lparr>ne_lib = example_lib, ne_lower = id, ne_fold = (=), ne_now = (\<lambda>w. int (length w)),
      ne_parse_url = (\<lambda>s. if has_prefix s ''https://''
        then Some \<lparr>u_scheme = ''https'', u_hostname = takeWhile (\<lambda>c. c \<noteq> CHR ''/'') (drop 8 s), u_port = []\<rparr>
        else None),
      ne_exchange = (\<lambda>ctx tr timeout addr req w.
        (if addr \<in> up then (Some (req\<lparr>mId := 0, mResponse := True\<rparr>), None) else (None, Some ''down''), w @ [addr])),
      ne_dial = (\<lambda>timeout ctx network addr w. (if addr \<in> up then Inr addr else Inl ''down'', w @ [addr])),
      ne_pack = (\<lambda>m. Inr ''wire''), ne_unpack = (\<lambda>b. Inr new_msg), ne_new_request = (\<lambda>u. None),
      ne_do = (\<lambda>dial timeout ctx rq s.
        (case dial ctx ''tcp'' ''dns.quad9.net:443'' s of
           (Inl e, s) \<Rightarrow> (Inl ''no connection'', s)
         | (Inr conn, s) \<Rightarrow> (Inr \<lparr>rp_status = 200, rp_body = Inr ''reply''\<rparr>, s)))\<rparr>"

definition example_dot :: dot_client where
  "example_dot =
     \<lparr>dc_endpoint = ''tls://x'', dc_host = ''x'', dc_port = ''853'',
      dc_bootstrapIPs = [''9.9.9.9'', ''1.1.1.1''], dc_ipCounter = 0, dc_timeout = Second\<rparr>"

definition example_std :: std_resolver where
  "example_std = \<lparr>sr_address = ''9.9.9.9:53'', sr_timeout = Second\<rparr>"

lemma example_dot_up:
  "dot_exchange (example_net {''9.9.9.9:853''}) ctx example_dot req [] =
     ((Some (req\<lparr>mResponse := True\<rparr>), None), example_dot\<lparr>dc_ipCounter := 1\<rparr>, [''1.1.1.1:853'', ''9.9.9.9:853''])"
  by (simp add: dot_exchange_def example_dot_def next_start_def rotated_def rotation_def dot_attempt_def
      example_net_def JoinHostPort_def restore_id_def Let_def upt_rec)

lemma example_dot_down:
  "dot_exchange (example_net {}) ctx example_dot req [] =
     ((None, Some (DotBootstrapErr ''x'' (Some ''down''))), example_dot\<lparr>dc_ipCounter := 1\<rparr>,
      [''1.1.1.1:853'', ''9.9.9.9:853''])"
  by (simp add: dot_exchange_def example_dot_def next_start_def rotated_def rotation_def dot_attempt_def
      example_net_def JoinHostPort_def restore_id_def Let_def upt_rec)

lemma Exchange_DoT:
  "Exchange env ctx req (DoT c) w =
     (fst (dot_exchange env ctx c req w), DoT (fst (snd (dot_exchange env ctx c req w))),
      snd (snd (dot_exchange env ctx c req w)))"
  by (simp add: case_prod_beta)

lemma example_dot_Exchange:
  "Exchange (example_net {''9.9.9.9:853''}) ctx req (DoT example_dot) [] =
     ((Some (req\<lparr>mResponse := True\<rparr>), None), DoT (example_dot\<lparr>dc_ipCounter := 1\<rparr>),
      [''1.1.1.1:853'', ''9.9.9.9:853''])"
  unfolding Exchange_DoT example_dot_up by simp

lemma next_start_less:
  assumes "0 < n" "n < 2 ^ 64"
  shows "snd (next_start ctr n) < n" "snd (next_start ctr n) = unat (ctr + 1) mod n"
proof -
  have "unat (of_nat n :: u64) = n" by (rule unat_of_nat_u64 [OF assms(2)])
  then show "snd (next_start ctr n) = unat (ctr + 1) mod n" "snd (next_start ctr n) < n"
    using assms(1) by (simp_all add: next_start_def Let_def unat_mod)
qed

lemma set_rotated_next:
  assumes "length ts < 2 ^ 64"
  shows "set (rotated (snd (next_start ctr (length ts))) ts) = set ts"
proof (cases "ts = []")
  case False
  then show ?thesis using next_start_less [of "length ts" ctr] assms by (intro set_rotated) simp
qed (simp add: rotated_def rotation_def)

section \<open>Properties\<close>

text \<open>
  C33. The contract that the forwarder relies on, for every kind of resolver and whatever the network does: an
  exchange never returns both a response and an error, and it changes nothing of the resolver but its
  counter, so that its address and its bootstrap addresses stay those it was created with.
\<close>

theorem resolver_contract:
  assumes "Exchange env ctx req res w = ((resp, err), res', w')"
  shows "(resp = None \<or> err = None) \<and> erase res' = erase res \<and> Address res' = Address res"
  using Exchange_cases [OF assms] Address_erase [of res' res] by auto

lemma resolver_contract_witness:
  "erase (DoT (example_dot\<lparr>dc_ipCounter := 1\<rparr>)) = erase (DoT example_dot)"
  by (rule resolver_contract [OF example_dot_Exchange, THEN conjunct2, THEN conjunct1])

text \<open>
  A plain resolver asks over UDP first, and over TCP if the UDP answer is truncated or there is none.  It
  returns the TCP answer then, falls back to the truncated one if TCP fails, and returns an error
  exactly when both transports fail.
\<close>

theorem standard_tcp_fallback:
  fixes env :: "('w, 'c, 'e) net_env" and ctx :: go_ctx and r :: std_resolver
  defines "udp \<equiv> ne_exchange env ctx Net_UDP (sr_timeout r)" and "tcp \<equiv> ne_exchange env ctx Net_TCP (sr_timeout r)"
  shows "std_exchange env ctx r req w =
    (let ((ru, eu), w1) = udp (sr_address r) req w;
         ((rt, et), w2) = tcp (sr_address r) req w1;
         truncated = (\<exists>m. ru = Some m \<and> mTruncated m)
     in if eu = None \<and> \<not> truncated then ((ru, None), w1)
        else if et = None then ((rt, None), w2)
        else if eu = None then ((ru, None), w2)
        else ((None, Some (StdErr (sr_address r) (the et))), w2))"
  by (auto simp: std_exchange_def udp_def tcp_def Let_def split: prod.splits option.splits)

text \<open>
  The encrypted resolvers restore the query's ID: a response from DNS over TLS or DNS over HTTPS carries
  the ID of the request, whatever ID the server sent.
\<close>

theorem encrypted_response_id:
  assumes "Exchange env ctx req res w = ((Some r, err), res', w')" "\<And>s. res \<noteq> Standard s"
  shows "mId r = mId req"
proof (cases res)
  case (Standard s)
  with assms(2) show ?thesis by blast
next
  case (DoT c)
  then show ?thesis using assms(1) dot_exchange_cases [of env ctx c req w] by (auto split: prod.splits)
next
  case (DoH c)
  then show ?thesis using assms(1) doh_exchange_cases [of env ctx c req w] by (auto split: prod.splits)
qed

lemma encrypted_response_id_witness:
  "mId (the (fst (fst (Exchange (example_net {''9.9.9.9:853''}) background (new_msg\<lparr>mId := 42\<rparr>) (DoT example_dot) [])))) = 42"
  using encrypted_response_id [OF example_dot_Exchange, of "new_msg\<lparr>mId := 42\<rparr>"]
  by (simp only: example_dot_Exchange) simp

text \<open>
  C31. A DNS-over-TLS query to an upstream with bootstrap addresses fails only after every address has been tried in
  this very query and has failed: the addresses, each as often as it is configured and in the rotation that starts after
  the counter, are asked one after the other, each exchange starts in the state of the world in which the
  one before it ended, none of them gives a response, and the error that is returned is the last one.
\<close>

theorem dot_fails_only_if_all_fail:
  assumes "dot_exchange env ctx c req w = ((resp, Some err), c', w')" "dc_bootstrapIPs c \<noteq> []"
    "length (dc_bootstrapIPs c) < 2 ^ 64"
  shows "\<exists>ws lastErr. let ips = rotate (unat (dc_ipCounter c + 1) mod length (dc_bootstrapIPs c)) (dc_bootstrapIPs c) in
    length ws = Suc (length ips) \<and> ws ! 0 = w \<and> ws ! length ips = w' \<and>
    resp = None \<and> err = DotBootstrapErr (dc_host c) lastErr \<and>
    (\<forall>i < length ips. \<exists>r e.
       ne_exchange env ctx (Net_TLS (dc_host c)) (dc_timeout c) (JoinHostPort (ips ! i) (dc_port c)) req (ws ! i) =
         ((r, e), ws ! Suc i) \<and> \<not> (e = None \<and> r \<noteq> None) \<and> (Suc i = length ips \<longrightarrow> e = lastErr))"
proof -
  let ?n = "length (dc_bootstrapIPs c)"
  obtain ctr st where ns: "next_start (dc_ipCounter c) ?n = (ctr, st)"
    by (metis prod.exhaust)
  have st: "st < ?n" "st = unat (dc_ipCounter c + 1) mod ?n"
    using next_start_less [of ?n "dc_ipCounter c"] assms(2,3) ns by simp_all
  define c1 where "c1 = c\<lparr>dc_ipCounter := ctr\<rparr>"
  have rot: "rotated st (dc_bootstrapIPs c) = rotate st (dc_bootstrapIPs c)"
    using st(1) by (simp add: rotated_eq rotate_drop_take)
  obtain e where fail: "try_each (dot_attempt env ctx c1 req) (rotate st (dc_bootstrapIPs c)) None w = (Inl e, w')"
    and res: "resp = None" "err = DotBootstrapErr (dc_host c) e"
    using assms(1,2) ns by (auto simp: dot_exchange_def Let_def c1_def rot split: prod.splits sum.splits)
  have att: "\<exists>r e. ne_exchange env ctx (Net_TLS (dc_host c)) (dc_timeout c) (JoinHostPort ip (dc_port c)) req w0 =
        ((r, e), w1) \<and> \<not> (e = None \<and> r \<noteq> None) \<and> e = err"
    if "dot_attempt env ctx c1 req ip w0 = ((resp, err), w1)" "\<not> (err = None \<and> resp \<noteq> None)" for ip w0 w1 resp err
    using that by (auto simp: dot_attempt_def c1_def Let_def split: prod.splits option.splits)
  from dot.try_each_Inl_run [OF fail] obtain ws where ws:
    "length ws = Suc ?n" "ws ! 0 = w" "ws ! ?n = w'"
    "\<forall>i < ?n. \<exists>resp err. dot_attempt env ctx c1 req (rotate st (dc_bootstrapIPs c) ! i) (ws ! i) =
       ((resp, err), ws ! Suc i) \<and> \<not> (err = None \<and> resp \<noteq> None) \<and> (Suc i = ?n \<longrightarrow> err = e)"
    unfolding length_rotate by blast
  show ?thesis
    unfolding Let_def length_rotate st(2) [symmetric]
  proof (intro exI [of _ ws] exI [of _ e] conjI allI impI ws(1-3) res)
    fix i assume "i < ?n"
    with ws(4) obtain resp err where
      "dot_attempt env ctx c1 req (rotate st (dc_bootstrapIPs c) ! i) (ws ! i) = ((resp, err), ws ! Suc i)"
      "\<not> (err = None \<and> resp \<noteq> None)" "Suc i = ?n \<longrightarrow> err = e" by blast
    from att [OF this(1,2)] this(3) show "\<exists>r e'. ne_exchange env ctx (Net_TLS (dc_host c)) (dc_timeout c)
        (JoinHostPort (rotate st (dc_bootstrapIPs c) ! i) (dc_port c)) req (ws ! i) =
        ((r, e'), ws ! Suc i) \<and> \<not> (e' = None \<and> r \<noteq> None) \<and> (Suc i = ?n \<longrightarrow> e' = e)" by blast
  qed
qed

lemma dot_fails_only_if_all_fail_witness:
  "\<exists>ws lastErr. ws ! 0 = [] \<and> ws ! 2 = [''1.1.1.1:853'', ''9.9.9.9:853''] \<and>
    DotBootstrapErr ''x'' (Some ''down'') = DotBootstrapErr (dc_host example_dot) lastErr"
proof -
  have ips: "rotate (unat (dc_ipCounter example_dot + 1) mod length (dc_bootstrapIPs example_dot)) (dc_bootstrapIPs example_dot) =
      [''1.1.1.1'', ''9.9.9.9'']" and "dc_bootstrapIPs example_dot \<noteq> []" "length (dc_bootstrapIPs example_dot) < 2 ^ 64"
    by (simp_all add: example_dot_def)
  from dot_fails_only_if_all_fail [OF example_dot_down this(2,3), of background new_msg, unfolded ips Let_def]
  obtain ws lastErr where "ws ! 0 = []" "ws ! length [''1.1.1.1'', ''9.9.9.9''] = [''1.1.1.1:853'', ''9.9.9.9:853'']"
    "DotBootstrapErr ''x'' (Some ''down'') = DotBootstrapErr (dc_host example_dot) lastErr" by blast
  then show ?thesis by (intro exI [of _ ws] exI [of _ lastErr]) (simp add: numeral_2_eq_2)
qed

text \<open>
  C32. No cold-start deadlock: when the HTTP client connects to the DoH server's own host and bootstrap
  addresses are known, only those are dialled, so that what the dialer does with host names, the
  system resolver included, is of no consequence.
\<close>

theorem doh_dials_only_bootstraps:
  assumes "SplitHostPort addr = Some (h, p)" "equal_fold (ne_fold env) h (hc_host c)"
    "hc_bootstrapIPs c \<noteq> []" "length (hc_bootstrapIPs c) < 2 ^ 64"
    "\<forall>ip \<in> set (hc_bootstrapIPs c). dial (hc_timeout c) ctx network (JoinHostPort ip p) = ne_dial env (hc_timeout c) ctx network (JoinHostPort ip p)"
  shows "dialContext (env\<lparr>ne_dial := dial\<rparr>) c ctx network addr = dialContext env c ctx network addr"
proof -
  have loop: "try_each (dial_attempt (env\<lparr>ne_dial := dial\<rparr>) (hc_timeout c) ctx network p) ts e w =
      try_each (dial_attempt env (hc_timeout c) ctx network p) ts e w"
    if "set ts \<subseteq> set (hc_bootstrapIPs c)" for ts e w
    using that
  proof (induction ts arbitrary: e w)
    case (Cons ip ts)
    then have "dial_attempt (env\<lparr>ne_dial := dial\<rparr>) (hc_timeout c) ctx network p ip = dial_attempt env (hc_timeout c) ctx network p ip"
      using assms(5) by (intro ext) (simp add: dial_attempt_def)
    with Cons show ?case by (simp split: prod.split)
  qed simp
  show ?thesis
  proof (intro ext)
    fix s :: "u64 \<times> 'a"
    obtain ctr w where s: "s = (ctr, w)" by (cases s)
    obtain ctr' st where ns: "next_start ctr (length (hc_bootstrapIPs c)) = (ctr', st)"
      by (metis prod.exhaust)
    then have "set (rotated st (hc_bootstrapIPs c)) \<subseteq> set (hc_bootstrapIPs c)"
      using set_rotated_next [OF assms(4), of ctr] by simp
    note loop [OF this]
    then show "dialContext (env\<lparr>ne_dial := dial\<rparr>) c ctx network addr s = dialContext env c ctx network addr s"
      using assms(1-3) by (simp add: dialContext_def Let_def s ns)
  qed
qed

definition example_doh :: doh_client where
  "example_doh = \<lparr>hc_endpoint = ''https://dns.quad9.net/dns-query'', hc_host = ''dns.quad9.net'', hc_port = ''443'',
     hc_bootstrapIPs = [''9.9.9.9'', ''2620:fe::fe''], hc_ipCounter = 0, hc_timeout = Second\<rparr>"

lemma doh_dials_only_bootstraps_witness:
  "dialContext ((example_net {''9.9.9.9:443''})\<lparr>ne_dial := (\<lambda>t x n a w.
       if a \<in> {''9.9.9.9:443'', ''[2620:fe::fe]:443''} then ne_dial (example_net {''9.9.9.9:443''}) t x n a w
       else (Inl ''deadlock'', w))\<rparr>) example_doh background ''tcp'' ''dns.quad9.net:443'' =
   dialContext (example_net {''9.9.9.9:443''}) example_doh background ''tcp'' ''dns.quad9.net:443''"
proof (rule doh_dials_only_bootstraps)
  show "SplitHostPort ''dns.quad9.net:443'' = Some (''dns.quad9.net'', ''443'')" by code_simp
  show "equal_fold (ne_fold (example_net {''9.9.9.9:443''})) ''dns.quad9.net'' (hc_host example_doh)"
    by (simp add: equal_fold_def example_doh_def example_net_def)
qed (auto simp: example_doh_def JoinHostPort_def fun_eq_iff)

text \<open>
  The default configuration needs no system resolver: each of the providers it names, and each other
  well-known one, has bootstrap addresses, and all of them are IP addresses.
\<close>

theorem default_upstreams_bootstrapped:
  "list_all (\<lambda>host.
     let ips = resolve_bootstraps ul host (BootstrapIPs (Upstream DefaultConfig)) (BootstrapMap (Upstream DefaultConfig))
     in ips \<noteq> [] \<and> list_all (\<lambda>ip. ParseIP ip \<noteq> None) ips)
   [''dns.quad9.net'', ''cloudflare-dns.com'', ''dns.mullvad.net'', ''dns.google'', ''dns.adguard-dns.com'']"
  by code_simp

text \<open>
  A plain upstream address given without a port, an IPv6 address without brackets included, becomes an
  address that the dialer splits back into that host and port 53.
\<close>

theorem standard_default_port:
  assumes "CHR ''['' \<notin> set addr" "CHR '']'' \<notin> set addr" "SplitHostPort addr = None"
  shows "SplitHostPort (Address (NewStandardResolver addr timeout)) = Some (addr, ''53'')"
proof -
  have "SplitHostPort (JoinHostPort addr ''53'') = Some (addr, ''53'')"
    by (rule Split_Join_HostPort [OF assms(1,2)]) simp_all
  then show ?thesis using assms(3) by (simp add: NewStandardResolver_def Let_def)
qed

lemma standard_default_port_witness:
  "SplitHostPort (Address (NewStandardResolver ''2620:fe::fe'' Second)) = Some (''2620:fe::fe'', ''53'')"
proof -
  have "SplitHostPort ''2620:fe::fe'' = None" by code_simp
  then show ?thesis using standard_default_port [of "''2620:fe::fe''" Second] by simp
qed

text \<open>
  A plain upstream given as a bracketed IPv6 address without a port gets a second pair of brackets:
  \<^verbatim>\<open>[::1]\<close> becomes \<^verbatim>\<open>[[::1]]:53\<close>, an address that no dialer can split, so such an upstream is never
  reachable although the configuration is accepted.
\<close>

theorem standard_bracketed_address_broken:
  "Address (NewStandardResolver ''[::1]'' timeout) = ''[[::1]]:53'' \<and>
   SplitHostPort (Address (NewStandardResolver ''[::1]'' timeout)) = None"
proof -
  have "SplitHostPort ''[::1]'' = None" "JoinHostPort ''[::1]'' ''53'' = ''[[::1]]:53''"
    "SplitHostPort ''[[::1]]:53'' = None"
    by code_simp+
  then show ?thesis by (simp add: NewStandardResolver_def)
qed

end
