(* ===== verification/Forwarder.thy ===== *)
theory Forwarder
  imports Resolvers "HOL-Library.Multiset"
begin

text \<open>
  \<^verbatim>\<open>internal/upstream/forwarder.go\<close>, lines 98 to 247: the pool of upstream resolvers and the three
  strategies.

  The resolvers keep counters, so the state of a query is the list of resolvers and the world.  Every
  exchange gets a context of its own, made by \<^verbatim>\<open>context.WithTimeout\<close> from the query's context, so the
  deadline of the query is shared by all its attempts.

  In the parallel strategy every resolver is asked by a goroutine of its own; the argument \<open>order\<close> is
  the order in which their results arrive, a permutation of the resolvers, and an exchange takes place
  as one step when its result arrives.  The loop takes results until the first valid one, so the world it
  returns is the one of that moment; the goroutines it no longer waits for are cancelled and go on by themselves.
  They are the list \<open>fw_running\<close>, which is no field of the Go struct, and each ends at some later time in a
  step of its own, \<open>finish_goroutine\<close>; its result stays in the buffered channel and is dropped.
\<close>

section \<open>State\<close>

record goroutine =
  go_target :: nat
  go_context :: go_ctx
  go_request :: msg

record forwarder =
  fw_resolvers :: "resolver list"
  fw_strategy :: string
  fw_timeout :: duration
  fw_counter :: u64
  fw_running :: "goroutine list"

datatype new_err = NoServers | NoResolvers

datatype 'e fw_err =
    AllFailed nat "'e up_err option"
  | FailoverFailed "'e up_err option"
  | ParallelFailed "'e up_err option"

section \<open>Construction\<close>

definition new_resolver ::
  "('w, 'c, 'e) net_env \<Rightarrow> upstream_config \<Rightarrow> duration \<Rightarrow> string \<Rightarrow> resolver option" where
  "new_resolver env cfg timeout server =
     (let s = trim_space server in
      if s = [] then None
      else if has_prefix s ''https://'' \<or> has_prefix s ''http://'' then
        Some (NewDoHResolver env s timeout (BootstrapIPs cfg) (BootstrapMap cfg))
      else if has_prefix s ''tls://'' then
        Some (NewDoTClient env s timeout (BootstrapIPs cfg) (BootstrapMap cfg))
      else Some (NewStandardResolver s timeout))"

definition NewForwarder :: "('w, 'c, 'e) net_env \<Rightarrow> upstream_config \<Rightarrow> new_err + forwarder" where
  "NewForwarder env cfg =
     (if length (Servers cfg) = 0 then Inl NoServers
      else
        (let timeout = (if Timeout cfg \<le> 0 then 4 * Second else Timeout cfg);
             resolvers = List.map_filter (new_resolver env cfg timeout) (Servers cfg)
         in if length resolvers = 0 then Inl NoResolvers
            else
              (let strategy = to_lower (ne_lower env) (Strategy cfg);
                   strategy = (if strategy = [] then ''round_robin'' else strategy)
               in Inr \<lparr>fw_resolvers = resolvers, fw_strategy = strategy, fw_timeout = timeout,
                       fw_counter = 0, fw_running = []\<rparr>)))"

section \<open>Strategies\<close>

definition exchange_at ::
  "('w, 'c, 'e) net_env \<Rightarrow> go_ctx \<Rightarrow> msg \<Rightarrow> nat \<Rightarrow> resolver list \<times> 'w \<Rightarrow>
     (msg option \<times> 'e up_err option) \<times> (resolver list \<times> 'w)" where
  "exchange_at env ctx req i = (\<lambda>(rs, w).
     (let (res, r', w) = Exchange env ctx req (rs ! i) w in (res, (rs[i := r'], w))))"

text \<open>The body of the sequential loops: an exchange in a context made for it.\<close>

definition attempt ::
  "('w, 'c, 'e) net_env \<Rightarrow> go_ctx \<Rightarrow> duration \<Rightarrow> msg \<Rightarrow> nat \<Rightarrow> resolver list \<times> 'w \<Rightarrow>
     (msg option \<times> 'e up_err option) \<times> (resolver list \<times> 'w)" where
  "attempt env ctx timeout req i = (\<lambda>(rs, w).
     (let qCtx = with_timeout ctx (ne_now env w) timeout in exchange_at env qCtx req i (rs, w)))"

text \<open>The outer \<open>None\<close> is the panic of the division by zero resolvers.\<close>

definition forwardRoundRobin ::
  "('w, 'c, 'e) net_env \<Rightarrow> go_ctx \<Rightarrow> forwarder \<Rightarrow> msg \<Rightarrow> 'w \<Rightarrow>
     ((msg option \<times> 'e fw_err option) \<times> forwarder \<times> 'w) option" where
  "forwardRoundRobin env ctx f req w =
     (let n = length (fw_resolvers f) in
      if n = 0 then None
      else
        (let (ctr, idx) = next_start (fw_counter f) n;
             (res, rs, w) =
               try_each (attempt env ctx (fw_timeout f) req) (rotation idx n) None (fw_resolvers f, w);
             f = f\<lparr>fw_resolvers := rs, fw_counter := ctr\<rparr>
         in Some (case res of
                    Inr resp \<Rightarrow> ((Some resp, None), f, w)
                  | Inl lastErr \<Rightarrow> ((None, Some (AllFailed n lastErr)), f, w))))"

definition forwardFailover ::
  "('w, 'c, 'e) net_env \<Rightarrow> go_ctx \<Rightarrow> forwarder \<Rightarrow> msg \<Rightarrow> 'w \<Rightarrow>
     (msg option \<times> 'e fw_err option) \<times> forwarder \<times> 'w" where
  "forwardFailover env ctx f req w =
     (let (res, rs, w) =
            try_each (attempt env ctx (fw_timeout f) req) [0..<length (fw_resolvers f)] None (fw_resolvers f, w);
          f = f\<lparr>fw_resolvers := rs\<rparr>
      in case res of
           Inr resp \<Rightarrow> ((Some resp, None), f, w)
         | Inl lastErr \<Rightarrow> ((None, Some (FailoverFailed lastErr)), f, w))"

text \<open>The goroutines of one query, in the order in which their results arrive; each clones the request.\<close>

definition start_goroutines ::
  "('w, 'c, 'e) net_env \<Rightarrow> nat list \<Rightarrow> go_ctx \<Rightarrow> forwarder \<Rightarrow> msg \<Rightarrow> 'w \<Rightarrow> goroutine list" where
  "start_goroutines env order ctx f req w =
     (let qCtx = with_timeout ctx (ne_now env w) (fw_timeout f)
      in map (\<lambda>i. \<lparr>go_target = i, go_context = qCtx, go_request = Copy (ne_lib env) req\<rparr>) order)"

definition run_goroutine ::
  "('w, 'c, 'e) net_env \<Rightarrow> goroutine \<Rightarrow> resolver list \<times> 'w \<Rightarrow>
     (msg option \<times> 'e up_err option) \<times> (resolver list \<times> 'w)" where
  "run_goroutine env g = exchange_at env (go_context g) (go_request g) (go_target g)"

text \<open>
  The loop that receives the results of the goroutines from the channel, in the order in which they
  arrive, with the goroutines it did not wait for.
\<close>

fun receive_results ::
  "('w, 'c, 'e) net_env \<Rightarrow> goroutine list \<Rightarrow> 'e up_err option \<Rightarrow> resolver list \<times> 'w \<Rightarrow>
     (('e up_err option + msg) \<times> goroutine list) \<times> (resolver list \<times> 'w)" where
  "receive_results env [] lastErr s = ((Inl lastErr, []), s)"
| "receive_results env (g # gs) lastErr s =
     (let ((resp, err), s) = run_goroutine env g s in
      if err = None \<and> resp \<noteq> None then ((Inr (the resp), gs), s)
      else receive_results env gs err s)"

definition cancelled :: "goroutine \<Rightarrow> goroutine" where
  "cancelled g = g\<lparr>go_context := cancel (go_context g)\<rparr>"

definition forwardParallel ::
  "('w, 'c, 'e) net_env \<Rightarrow> nat list \<Rightarrow> go_ctx \<Rightarrow> forwarder \<Rightarrow> msg \<Rightarrow> 'w \<Rightarrow>
     (msg option \<times> 'e fw_err option) \<times> forwarder \<times> 'w" where
  "forwardParallel env order ctx f req w =
     (let goroutines = start_goroutines env order ctx f req w;
          ((res, rest), rs, w) = receive_results env goroutines None (fw_resolvers f, w);
          f = f\<lparr>fw_resolvers := rs, fw_running := fw_running f @ map cancelled rest\<rparr>
      in case res of
           Inr resp \<Rightarrow> ((Some resp, None), f, w)
         | Inl lastErr \<Rightarrow> ((None, Some (ParallelFailed lastErr)), f, w))"

text \<open>The end of the \<open>k\<close>-th goroutine that is still running.\<close>

definition finish_goroutine :: "('w, 'c, 'e) net_env \<Rightarrow> nat \<Rightarrow> forwarder \<Rightarrow> 'w \<Rightarrow> forwarder \<times> 'w" where
  "finish_goroutine env k f w =
     (let g = fw_running f ! k;
          (res, rs, w) = run_goroutine env g (fw_resolvers f, w)
      in (f\<lparr>fw_resolvers := rs, fw_running := take k (fw_running f) @ drop (Suc k) (fw_running f)\<rparr>, w))"

definition Forward ::
  "('w, 'c, 'e) net_env \<Rightarrow> nat list \<Rightarrow> go_ctx \<Rightarrow> forwarder \<Rightarrow> msg \<Rightarrow> 'w \<Rightarrow>
     ((msg option \<times> int \<times> 'e fw_err option) \<times> forwarder \<times> 'w) option" where
  "Forward env order ctx f req w0 =
     (let start = ne_now env w0;
          r = (if fw_strategy f = ''parallel'' then Some (forwardParallel env order ctx f req w0)
               else if fw_strategy f = ''failover'' then Some (forwardFailover env ctx f req w0)
               else forwardRoundRobin env ctx f req w0)
      in map_option (\<lambda>((resp, err), f, w). ((resp, ne_now env w - start, err), f, w)) r)"

section \<open>The loop over resolvers\<close>

text \<open>
  \<open>gives env ctx req res0 r\<close>: \<open>r\<close> is a response that \<open>res0\<close> has given to \<open>req\<close> in the context \<open>ctx\<close>, with some
  value of its counter and in some state of the world; \<open>answer_of\<close>: the \<open>i\<close>-th of the resolvers has given it
  in a context made from the query's.
\<close>

definition gives ::
  "('w, 'c, 'e) net_env \<Rightarrow> go_ctx \<Rightarrow> msg \<Rightarrow> resolver \<Rightarrow> msg \<Rightarrow> bool" where
  "gives env ctx req res0 r \<longleftrightarrow>
     (\<exists>res w. erase res = erase res0 \<and> fst (Exchange env ctx req res w) = (Some r, None))"

definition answer_of ::
  "('w, 'c, 'e) net_env \<Rightarrow> go_ctx \<Rightarrow> duration \<Rightarrow> msg \<Rightarrow> resolver list \<Rightarrow> nat \<Rightarrow> msg \<Rightarrow> bool" where
  "answer_of env ctx timeout req rs0 i r \<longleftrightarrow>
     i < length rs0 \<and> (\<exists>t. gives env (with_timeout ctx t timeout) req (rs0 ! i) r)"

definition pool_inv :: "resolver list \<Rightarrow> resolver list \<times> 'w \<Rightarrow> bool" where
  "pool_inv rs0 s \<longleftrightarrow> map erase (fst s) = map erase rs0"

lemma pool_inv_refl [simp]: "pool_inv rs (rs, w)"
  by (simp add: pool_inv_def)

lemma exchange_at_result:
  "fst (exchange_at env ctx req i (rs, w)) = fst (Exchange env ctx req (rs ! i) w)"
  "snd (snd (exchange_at env ctx req i (rs, w))) = snd (snd (Exchange env ctx req (rs ! i) w))"
  by (simp_all add: exchange_at_def split: prod.split)

lemma attempt_eq:
  "attempt env ctx timeout req i (rs, w) =
     exchange_at env (with_timeout ctx (ne_now env w) timeout) req i (rs, w)"
  by (simp add: attempt_def)

lemma pool_inv_exchange:
  assumes "pool_inv rs0 s"
  shows "pool_inv rs0 (snd (exchange_at env ctx req i s))"
proof -
  obtain rs w where s: "s = (rs, w)" by (cases s)
  obtain resp err res' w' where e: "Exchange env ctx req (rs ! i) w = ((resp, err), res', w')"
    by (metis prod.exhaust)
  then have "erase res' = erase (rs ! i)" using Exchange_cases [OF e] by simp
  then have "map erase (rs[i := res']) = map erase rs"
    by (cases "i < length rs") (auto simp: map_update list_update_same_conv list_update_beyond)
  then show ?thesis using assms e by (simp add: pool_inv_def exchange_at_def s)
qed

lemma pool_inv_nth: "pool_inv rs0 (rs, w) \<Longrightarrow> i < length rs0 \<Longrightarrow> erase (rs ! i) = erase (rs0 ! i)"
  unfolding pool_inv_def by (metis fst_conv length_map nth_map)

lemma pool_inv_gives:
  assumes "pool_inv rs0 s" "fst (exchange_at env ctx req i s) = (Some r, None)" "i < length rs0"
  shows "gives env ctx req (rs0 ! i) r"
  using assms pool_inv_nth [of rs0 "fst s" "snd s" i] exchange_at_result(1) [of env ctx req i "fst s" "snd s"]
  by (auto simp: gives_def)

interpretation pool: retry_loop "attempt env ctx timeout req" "pool_inv rs0"
  "\<lambda>i r. i < length rs0 \<longrightarrow> answer_of env ctx timeout req rs0 i r"
  for env ctx timeout req rs0
proof
  fix s :: "resolver list \<times> 'a" and i r
  assume inv: "pool_inv rs0 s"
  obtain rs w where s: "s = (rs, w)" by (cases s)
  show "pool_inv rs0 (snd (attempt env ctx timeout req i s))"
    using pool_inv_exchange [OF inv] by (simp add: s attempt_eq)
  assume "fst (attempt env ctx timeout req i s) = (Some r, None)"
  then show "i < length rs0 \<longrightarrow> answer_of env ctx timeout req rs0 i r"
    using pool_inv_gives [OF inv, of env "with_timeout ctx (ne_now env w) timeout" req i r]
    by (auto simp: s attempt_eq answer_of_def)
qed

interpretation goroutines: retry_loop "run_goroutine env" "pool_inv rs0"
  "\<lambda>g r. go_target g < length rs0 \<longrightarrow> gives env (go_context g) (go_request g) (rs0 ! go_target g) r"
  for env rs0
  by unfold_locales (auto simp: run_goroutine_def pool_inv_exchange pool_inv_gives)

lemma receive_results_try_each:
  "fst (fst (receive_results env gs e s)) = fst (try_each (run_goroutine env) gs e s) \<and>
   snd (receive_results env gs e s) = snd (try_each (run_goroutine env) gs e s)"
  by (induction env gs e s rule: receive_results.induct) (auto split: prod.split)

text \<open>The outcome of one query on the pool, by strategy: a loop, or the arrival order.\<close>

definition visit_order :: "forwarder \<Rightarrow> nat list" where
  "visit_order f =
     (if fw_strategy f = ''failover'' then [0..<length (fw_resolvers f)]
      else rotation (snd (next_start (fw_counter f) (length (fw_resolvers f)))) (length (fw_resolvers f)))"

definition pool_ok :: "nat list \<Rightarrow> forwarder \<Rightarrow> bool" where
  "pool_ok order f \<longleftrightarrow>
     fw_resolvers f \<noteq> [] \<and> length (fw_resolvers f) < 2 ^ 64 \<and>
     mset order = mset [0..<length (fw_resolvers f)]"

lemma visit_order_set: "pool_ok order f \<Longrightarrow> set (visit_order f) = {0..<length (fw_resolvers f)}"
  using next_start_less(1) [of "length (fw_resolvers f)" "fw_counter f"] mset_rotation
  by (auto simp: visit_order_def pool_ok_def)

lemma pool_ok_order: "pool_ok order f \<Longrightarrow> set order = {..<length (fw_resolvers f)}"
proof -
  assume "pool_ok order f"
  then have "set_mset (mset order) = set_mset (mset [0..<length (fw_resolvers f)])" by (simp add: pool_ok_def)
  then show ?thesis by (simp add: atLeast0LessThan)
qed

lemma Forward_sequential:
  assumes "fw_resolvers f \<noteq> []" "fw_strategy f \<noteq> ''parallel''"
    "try_each (attempt env ctx (fw_timeout f) req) (visit_order f) None (fw_resolvers f, w) = (res, rs, w')"
  obtains ctr e where
    "Forward env order ctx f req w =
       Some (((case res of Inr r \<Rightarrow> Some r | Inl _ \<Rightarrow> None), ne_now env w' - ne_now env w,
              (case res of Inr r \<Rightarrow> None | Inl _ \<Rightarrow> Some e)),
             f\<lparr>fw_resolvers := rs, fw_counter := ctr\<rparr>, w')"
    "fw_strategy f \<noteq> ''failover'' \<Longrightarrow> ctr = fw_counter f + 1"
proof (cases "fw_strategy f = ''failover''")
  case True
  have "f\<lparr>fw_resolvers := rs, fw_counter := fw_counter f\<rparr> = f\<lparr>fw_resolvers := rs\<rparr>" by simp
  then show ?thesis
    using that [of "FailoverFailed (projl res)" "fw_counter f"] assms True
    by (cases res) (simp_all add: Forward_def forwardFailover_def visit_order_def)
next
  case False
  obtain ctr st where ns: "next_start (fw_counter f) (length (fw_resolvers f)) = (ctr, st)"
    by (metis prod.exhaust)
  then have "ctr = fw_counter f + 1" by (auto simp: next_start_def Let_def)
  then show ?thesis
    using that [of "AllFailed (length (fw_resolvers f)) (projl res)" ctr] assms False ns
    by (cases res) (simp_all add: Forward_def forwardRoundRobin_def visit_order_def)
qed

lemma Forward_parallel:
  assumes "fw_strategy f = ''parallel''"
    "try_each (run_goroutine env) (start_goroutines env order ctx f req w) None (fw_resolvers f, w) = (res, rs, w')"
  obtains e rest where
    "Forward env order ctx f req w =
       Some (((case res of Inr r \<Rightarrow> Some r | Inl _ \<Rightarrow> None), ne_now env w' - ne_now env w,
              (case res of Inr r \<Rightarrow> None | Inl _ \<Rightarrow> Some e)),
             f\<lparr>fw_resolvers := rs, fw_running := fw_running f @ rest\<rparr>, w')"
proof -
  obtain rest where "receive_results env (start_goroutines env order ctx f req w) None (fw_resolvers f, w) =
      ((res, rest), rs, w')"
    using receive_results_try_each [of env "start_goroutines env order ctx f req w" None "(fw_resolvers f, w)"] assms(2)
    by (metis fst_conv prod.collapse snd_conv)
  then show ?thesis
    using assms(1) that [of "ParallelFailed (projl res)" "map cancelled rest"]
    by (cases res) (simp_all add: Forward_def forwardParallel_def)
qed

text \<open>What every strategy guarantees of one call.\<close>

definition genuine_outcome ::
  "('w, 'c, 'e) net_env \<Rightarrow> nat list \<Rightarrow> go_ctx \<Rightarrow> forwarder \<Rightarrow> msg \<Rightarrow> 'w \<Rightarrow> bool" where
  "genuine_outcome env order ctx f req w \<longleftrightarrow> (\<exists>resp rtt err f' w'.
    Forward env order ctx f req w = Some ((resp, rtt, err), f', w') \<and>
    (resp = None \<longleftrightarrow> err \<noteq> None) \<and>
    map erase (fw_resolvers f') = map erase (fw_resolvers f) \<and>
    fw_strategy f' = fw_strategy f \<and> fw_timeout f' = fw_timeout f \<and>
    (\<forall>r. resp = Some r \<longrightarrow> (\<exists>i. answer_of env ctx (fw_timeout f) req (fw_resolvers f) i r)))"

lemma Forward_parallel_outcome:
  assumes "pool_ok order f" "copy_ok (ne_lib env)" "fw_strategy f = ''parallel''"
  shows "genuine_outcome env order ctx f req w"
proof -
  let ?gs = "start_goroutines env order ctx f req w"
  obtain res rs w' where t: "try_each (run_goroutine env) ?gs None (fw_resolvers f, w) = (res, rs, w')"
    by (metis prod.exhaust)
  have g: "go_target g < length (fw_resolvers f) \<and> go_request g = req \<and>
      go_context g = with_timeout ctx (ne_now env w) (fw_timeout f)" if "g \<in> set ?gs" for g
    using that pool_ok_order [OF assms(1)] assms(2) by (auto simp: start_goroutines_def copy_ok_def Let_def)
  have inv': "map erase rs = map erase (fw_resolvers f)"
    using goroutines.try_each_inv [OF pool_inv_refl, of "fw_resolvers f" env ?gs None w] t by (simp add: pool_inv_def)
  have good: "\<exists>i. answer_of env ctx (fw_timeout f) req (fw_resolvers f) i r" if "res = Inr r" for r
  proof -
    from goroutines.try_each_Inr [OF pool_inv_refl t [unfolded that]] obtain us g vs where
      "?gs = us @ g # vs"
      "go_target g < length (fw_resolvers f) \<longrightarrow> gives env (go_context g) (go_request g) (fw_resolvers f ! go_target g) r"
      by blast
    with g [of g] show ?thesis by (auto simp: answer_of_def)
  qed
  obtain e rest where "Forward env order ctx f req w =
       Some (((case res of Inr r \<Rightarrow> Some r | Inl _ \<Rightarrow> None), ne_now env w' - ne_now env w,
              (case res of Inr r \<Rightarrow> None | Inl _ \<Rightarrow> Some e)),
             f\<lparr>fw_resolvers := rs, fw_running := fw_running f @ rest\<rparr>, w')"
    by (rule Forward_parallel [OF assms(3) t])
  then show ?thesis using inv' good unfolding genuine_outcome_def by (cases res) auto
qed

lemma Forward_serial_outcome:
  assumes "pool_ok order f" "copy_ok (ne_lib env)" "fw_strategy f \<noteq> ''parallel''"
  shows "genuine_outcome env order ctx f req w"
proof -
  obtain res rs w' where t:
    "try_each (attempt env ctx (fw_timeout f) req) (visit_order f) None (fw_resolvers f, w) = (res, rs, w')"
    by (metis prod.exhaust)
  have inv': "map erase rs = map erase (fw_resolvers f)"
    using pool.try_each_inv [OF pool_inv_refl, of "fw_resolvers f" env ctx "fw_timeout f" req "visit_order f" None w] t
    by (simp add: pool_inv_def)
  have good: "\<exists>i. answer_of env ctx (fw_timeout f) req (fw_resolvers f) i r" if "res = Inr r" for r
  proof -
    from pool.try_each_Inr [OF pool_inv_refl t [unfolded that]] obtain us i vs where "visit_order f = us @ i # vs"
      "i < length (fw_resolvers f) \<longrightarrow> answer_of env ctx (fw_timeout f) req (fw_resolvers f) i r" by blast
    moreover from this have "i \<in> set (visit_order f)" by simp
    ultimately show ?thesis using visit_order_set [OF assms(1)] by auto
  qed
  have ne: "fw_resolvers f \<noteq> []" using assms(1) by (simp add: pool_ok_def)
  obtain ctr e where "Forward env order ctx f req w =
       Some (((case res of Inr r \<Rightarrow> Some r | Inl _ \<Rightarrow> None), ne_now env w' - ne_now env w,
              (case res of Inr r \<Rightarrow> None | Inl _ \<Rightarrow> Some e)),
             f\<lparr>fw_resolvers := rs, fw_counter := ctr\<rparr>, w')"
    by (rule Forward_sequential [OF ne assms(3) t])
  then show ?thesis using good inv' unfolding genuine_outcome_def by (cases res) auto
qed

lemma Forward_outcome:
  assumes "pool_ok order f" "copy_ok (ne_lib env)"
  shows "\<exists>resp rtt err f' w'.
    Forward env order ctx f req w = Some ((resp, rtt, err), f', w') \<and>
    (resp = None \<longleftrightarrow> err \<noteq> None) \<and>
    map erase (fw_resolvers f') = map erase (fw_resolvers f) \<and>
    fw_strategy f' = fw_strategy f \<and> fw_timeout f' = fw_timeout f \<and>
    (\<forall>r. resp = Some r \<longrightarrow> (\<exists>i. answer_of env ctx (fw_timeout f) req (fw_resolvers f) i r))"
  by (cases "fw_strategy f = ''parallel''",
      rule Forward_parallel_outcome [OF assms, unfolded genuine_outcome_def], assumption,
      rule Forward_serial_outcome [OF assms, unfolded genuine_outcome_def], assumption)

lemma finish_goroutine_pool:
  "map erase (fw_resolvers (fst (finish_goroutine env k f w))) = map erase (fw_resolvers f) \<and>
   fw_strategy (fst (finish_goroutine env k f w)) = fw_strategy f \<and>
   fw_timeout (fst (finish_goroutine env k f w)) = fw_timeout f"
  using goroutines.attempt_inv [OF pool_inv_refl, of "fw_resolvers f" env "fw_running f ! k" w]
  by (auto simp: finish_goroutine_def pool_inv_def Let_def split: prod.split)

section \<open>Deadlines\<close>

text \<open>
  What an upstream does about its deadline.  \<open>answers_within\<close>: it responds to the query whenever the context lasts
  \<open>need\<close> more, as long as the network is in a state that satisfies \<open>up\<close>.  \<open>exchange_cost\<close>: an exchange in a
  context made with the pool's timeout takes at most \<open>cost\<close> and leaves the network in such a state.
  \<open>hangs\<close>: an exchange lasts until its deadline and brings no response.  \<open>obeys_deadline\<close>: an exchange whose
  deadline has passed brings no response.
\<close>

definition answers_within ::
  "('w, 'c, 'e) net_env \<Rightarrow> ('w \<Rightarrow> bool) \<Rightarrow> duration \<Rightarrow> msg \<Rightarrow> resolver \<Rightarrow> bool" where
  "answers_within env up need req res \<longleftrightarrow>
     (\<forall>res' ctx w. erase res' = erase res \<and> up w \<and> has_time ctx (ne_now env w) need \<longrightarrow>
        (\<exists>r. fst (Exchange env ctx req res' w) = (Some r, None)))"

definition exchange_cost ::
  "('w, 'c, 'e) net_env \<Rightarrow> ('w \<Rightarrow> bool) \<Rightarrow> duration \<Rightarrow> duration \<Rightarrow> msg \<Rightarrow> resolver \<Rightarrow> bool" where
  "exchange_cost env up timeout cost req res \<longleftrightarrow>
     (\<forall>res' ctx w d. erase res' = erase res \<and> up w \<and> cx_deadline ctx = Some d \<and> d \<le> ne_now env w + timeout \<longrightarrow>
        (let w' = snd (snd (Exchange env ctx req res' w))
         in up w' \<and> ne_now env w \<le> ne_now env w' \<and> ne_now env w' \<le> ne_now env w + cost))"

definition hangs :: "('w, 'c, 'e) net_env \<Rightarrow> duration \<Rightarrow> msg \<Rightarrow> resolver \<Rightarrow> bool" where
  "hangs env timeout req res \<longleftrightarrow>
     (\<forall>res' ctx w d. erase res' = erase res \<and> cx_deadline ctx = Some d \<and> d \<le> ne_now env w + timeout \<longrightarrow>
        (\<nexists>r. fst (Exchange env ctx req res' w) = (Some r, None)) \<and>
        d \<le> ne_now env (snd (snd (Exchange env ctx req res' w))))"

definition obeys_deadline :: "('w, 'c, 'e) net_env \<Rightarrow> msg \<Rightarrow> resolver \<Rightarrow> bool" where
  "obeys_deadline env req res \<longleftrightarrow>
     (\<forall>res' ctx w d. erase res' = erase res \<and> cx_deadline ctx = Some d \<and> d \<le> ne_now env w \<longrightarrow>
        (\<nexists>r. fst (Exchange env ctx req res' w) = (Some r, None)) \<and>
        ne_now env w \<le> ne_now env (snd (snd (Exchange env ctx req res' w))))"

text \<open>The order in which the results are awaited: that of the loop, or that of their arrival.\<close>

definition awaited :: "nat list \<Rightarrow> forwarder \<Rightarrow> nat list" where
  "awaited order f = (if fw_strategy f = ''parallel'' then order else visit_order f)"

lemma awaited_split:
  assumes "pool_ok order f" "k < length (fw_resolvers f)"
  obtains us vs where "awaited order f = us @ awaited order f ! k # vs" "length us = k"
    "set (awaited order f) = {..<length (fw_resolvers f)}"
proof -
  have set: "set (awaited order f) = {..<length (fw_resolvers f)}"
    using visit_order_set [OF assms(1)] pool_ok_order [OF assms(1)] by (auto simp: awaited_def)
  have "length order = length (fw_resolvers f)"
    using assms(1) mset_eq_length [of order "[0..<length (fw_resolvers f)]"] by (simp add: pool_ok_def)
  then have "k < length (awaited order f)" using assms(2) by (simp add: awaited_def visit_order_def)
  then show ?thesis
    using that [of "take k (awaited order f)" "drop (Suc k) (awaited order f)"] set by (simp add: id_take_nth_drop)
qed

text \<open>One exchange of the pool, under the two assumptions of the liveness property.\<close>

lemma exchange_at_cost:
  assumes "\<forall>res \<in> set rs0. exchange_cost env up timeout cost req res" "pool_inv rs0 (rs, w)" "j < length rs0"
    "up w" "start \<le> ne_now env w"
  shows "let w' = snd (snd (exchange_at env (with_timeout ctx start timeout) req j (rs, w)))
    in up w' \<and> ne_now env w \<le> ne_now env w' \<and> ne_now env w' \<le> ne_now env w + cost"
proof -
  let ?ctx = "with_timeout ctx start timeout"
  obtain d where d: "cx_deadline ?ctx = Some d" by (simp add: with_timeout_def)
  then have "d \<le> ne_now env w + timeout" using deadline_with_timeout(1) [OF d] assms(5) by linarith
  moreover have "exchange_cost env up timeout cost req (rs0 ! j)" using assms(1,3) by simp
  ultimately show ?thesis
    using d assms(4) pool_inv_nth [OF assms(2,3)]
    unfolding exchange_cost_def exchange_at_result(2) by blast
qed

lemma exchange_at_answers:
  assumes "answers_within env up need req (rs0 ! i)" "pool_inv rs0 (rs, w)" "i < length rs0"
    "up w" "has_time ctx (ne_now env w) need"
  shows "\<exists>r. fst (exchange_at env ctx req i (rs, w)) = (Some r, None)"
  using assms pool_inv_nth [OF assms(2,3)] unfolding answers_within_def exchange_at_result(1) by blast

lemma Forward_answers:
  assumes "pool_ok order f" "copy_ok (ne_lib env)" "k < length (fw_resolvers f)"
    and ans: "answers_within env up need req (fw_resolvers f ! (awaited order f ! k))"
    and cost: "\<forall>res \<in> set (fw_resolvers f). exchange_cost env up (fw_timeout f) cost req res"
    and "up w" and left: "has_time ctx (ne_now env w) (int k * cost + need)"
    and own: "(if fw_strategy f = ''parallel'' then int k * cost + need else need) \<le> fw_timeout f"
  shows "\<exists>r rtt f' w'. Forward env order ctx f req w = Some ((Some r, rtt, None), f', w')"
proof -
  define i where "i = awaited order f ! k"
  let ?now = "ne_now env w" and ?T = "fw_timeout f" and ?rs = "fw_resolvers f"
  define J where "J = (\<lambda>(j :: nat) (s :: resolver list \<times> 'a).
    up (snd s) \<and> ?now \<le> ne_now env (snd s) \<and> ne_now env (snd s) \<le> ?now + int j * cost)"
  obtain us vs where split: "awaited order f = us @ i # vs" "length us = k"
    and set: "set (awaited order f) = {..<length ?rs}"
    unfolding i_def by (rule awaited_split [OF assms(1,3)])
  have "set (us @ i # vs) = {..<length ?rs}" using set unfolding split(1) .
  then have i: "i < length ?rs" and us: "\<And>j. j < length us \<Longrightarrow> us ! j < length ?rs"
    by (auto dest: nth_mem)
  note ans = ans [folded i_def]
  have J0: "J 0 (?rs, w)" using assms(6) by (simp add: J_def)
  have Jk: "has_time ctx (ne_now env (snd s)) need \<and>
      (fw_strategy f = ''parallel'' \<longrightarrow> ne_now env (snd s) + need \<le> ?now + ?T)" if "J k s" for s
    using that left own by (auto simp: J_def elim!: has_time_mono)
  have step: "J (Suc j) (snd (exchange_at env (with_timeout ctx start ?T) req (us ! j) s))"
    if "j < length us" "pool_inv ?rs s" "J j s" "start \<le> ne_now env (snd s)" for j s start
    using exchange_at_cost [OF cost, of "fst s" "snd s" "us ! j" start ctx] us [OF that(1)] that(2-4)
    by (auto simp: J_def Let_def algebra_simps)
  show ?thesis
  proof (cases "fw_strategy f = ''parallel''")
    case True
    define g where "g = (\<lambda>i. \<lparr>go_target = i, go_context = with_timeout ctx ?now ?T, go_request = req\<rparr>)"
    have gs: "start_goroutines env order ctx f req w = map g us @ g i # map g vs"
      using split(1) True assms(2) by (simp add: start_goroutines_def g_def copy_ok_def awaited_def Let_def)
    have run: "run_goroutine env (g j) = exchange_at env (with_timeout ctx ?now ?T) req j" for j
      by (simp add: run_goroutine_def g_def)
    have "\<exists>r s'. try_each (run_goroutine env) (map g us @ g i # map g vs) None (?rs, w) = (Inr r, s')"
    proof (rule goroutines.try_each_reaches [where J = J, OF pool_inv_refl J0])
      show "J (Suc j) (snd (run_goroutine env (map g us ! j) s))"
        if "j < length (map g us)" "pool_inv ?rs s" "J j s" for j s
        using step [of j s ?now] that by (simp add: run J_def)
      show "\<exists>r. fst (run_goroutine env (g i) s) = (Some r, None)"
        if "pool_inv ?rs s" "J (length (map g us)) s" for s
        using exchange_at_answers [OF ans, of "fst s" "snd s"] that i Jk [of s] True split(2)
        by (simp add: run J_def)
    qed
    then obtain r rs' w' where "try_each (run_goroutine env) (start_goroutines env order ctx f req w) None (?rs, w) =
        (Inr r, rs', w')" unfolding gs by (metis prod.exhaust)
    from Forward_parallel [OF True this] show ?thesis by (metis (no_types, lifting) sum.simps(6))
  next
    case False
    have "\<exists>r s'. try_each (attempt env ctx ?T req) (us @ i # vs) None (?rs, w) = (Inr r, s')"
    proof (rule pool.try_each_reaches [where J = J, OF pool_inv_refl J0])
      show "J (Suc j) (snd (attempt env ctx ?T req (us ! j) s))" if "j < length us" "pool_inv ?rs s" "J j s" for j s
        using step [of j s "ne_now env (snd s)"] that by (cases s) (simp add: attempt_eq)
      show "\<exists>r. fst (attempt env ctx ?T req i s) = (Some r, None)" if "pool_inv ?rs s" "J (length us) s" for s
        using exchange_at_answers [OF ans, of "fst s" "snd s"] that i Jk [of s] own False split(2)
        by (cases s) (simp add: attempt_eq J_def)
    qed
    then obtain r rs' w' where "try_each (attempt env ctx ?T req) (visit_order f) None (?rs, w) = (Inr r, rs', w')"
      using False split(1) by (metis awaited_def prod.exhaust)
    from Forward_sequential [OF _ False this] show ?thesis
      using assms(1) by (metis (no_types, lifting) pool_ok_def sum.simps(6))
  qed
qed


section \<open>Round-robin\<close>

text \<open>A sequence of queries, each in a context of its own: the responses they get.\<close>

fun forward_all ::
  "('w, 'c, 'e) net_env \<Rightarrow> duration \<Rightarrow> (nat list \<times> msg) list \<Rightarrow> forwarder \<Rightarrow> 'w \<Rightarrow> msg option list" where
  "forward_all env limit [] f w = []"
| "forward_all env limit ((order, req) # qs) f w =
     (case Forward env order (with_timeout background (ne_now env w) limit) f req w of
        None \<Rightarrow> []
      | Some ((resp, _, _), f', w') \<Rightarrow> resp # forward_all env limit qs f' w')"

text \<open>Every resolver of the pool responds, with a response of its own.\<close>

definition all_respond ::
  "('w, 'c, 'e) net_env \<Rightarrow> duration \<Rightarrow> (nat \<Rightarrow> msg \<Rightarrow> msg) \<Rightarrow> msg set \<Rightarrow> resolver list \<Rightarrow> bool" where
  "all_respond env need reply reqs rs \<longleftrightarrow>
     (\<forall>i < length rs. \<forall>req \<in> reqs. \<forall>res ctx w. erase res = erase (rs ! i) \<and> has_time ctx (ne_now env w) need \<longrightarrow>
        fst (Exchange env ctx req res w) = (Some (reply i req), None))"

definition round_robin :: "forwarder \<Rightarrow> bool" where
  "round_robin f \<longleftrightarrow>
     fw_strategy f \<noteq> ''parallel'' \<and> fw_strategy f \<noteq> ''failover'' \<and>
     fw_resolvers f \<noteq> [] \<and> length (fw_resolvers f) < 2 ^ 64"

lemma round_robin_step:
  assumes "round_robin f" "all_respond env need reply reqs (fw_resolvers f)" "req \<in> reqs"
    "has_time ctx (ne_now env w) need" "need \<le> fw_timeout f"
  obtains rtt f' w' where
    "Forward env order ctx f req w =
       Some ((Some (reply (unat (fw_counter f + 1) mod length (fw_resolvers f)) req), rtt, None), f', w')"
    "round_robin f'" "fw_counter f' = fw_counter f + 1" "fw_timeout f' = fw_timeout f"
    "map erase (fw_resolvers f') = map erase (fw_resolvers f)"
proof -
  let ?rs = "fw_resolvers f"
  define i where "i = unat (fw_counter f + 1) mod length ?rs"
  have rr: "fw_strategy f \<noteq> ''parallel''" "fw_strategy f \<noteq> ''failover''" "?rs \<noteq> []" "length ?rs < 2 ^ 64"
    using assms(1) by (simp_all add: round_robin_def)
  have start: "snd (next_start (fw_counter f) (length ?rs)) = i" "i < length ?rs"
    using next_start_less [of "length ?rs" "fw_counter f"] rr by (simp_all add: i_def)
  then have visit: "visit_order f = i # tl (visit_order f)"
    using rr(2) rr(3) hd_rotation [OF start(2)]
    by (metis visit_order_def length_0_conv length_rotation list.collapse)
  have "fst (attempt env ctx (fw_timeout f) req i (?rs, w)) = (Some (reply i req), None)"
    using assms(2-5) start(2) by (simp add: attempt_eq exchange_at_result all_respond_def)
  then obtain rs w' where a: "attempt env ctx (fw_timeout f) req i (?rs, w) = ((Some (reply i req), None), rs, w')"
    by (metis prod.collapse)
  have er: "map erase rs = map erase ?rs"
    using pool.attempt_inv [OF pool_inv_refl, of ?rs env ctx "fw_timeout f" req i w] a by (simp add: pool_inv_def)
  then have len: "length rs = length ?rs" by (metis length_map)
  then have ne: "rs \<noteq> []" using rr(3) by auto
  have t: "try_each (attempt env ctx (fw_timeout f) req) (visit_order f) None (?rs, w) = (Inr (reply i req), rs, w')"
    by (subst visit, rule try_each_ok [where attempt = "attempt env ctx (fw_timeout f) req", OF a])
  show thesis
  proof (rule Forward_sequential [OF rr(3,1) t, of order])
    fix ctr e
    assume "Forward env order ctx f req w =
       Some (((case Inr (reply i req) of Inr r \<Rightarrow> Some r | Inl _ \<Rightarrow> None), ne_now env w' - ne_now env w,
              (case Inr (reply i req) of Inr r \<Rightarrow> None | Inl _ \<Rightarrow> Some e)), f\<lparr>fw_resolvers := rs, fw_counter := ctr\<rparr>, w')"
      and "fw_strategy f \<noteq> ''failover'' \<Longrightarrow> ctr = fw_counter f + 1"
    then show thesis
      using that [of "ne_now env w' - ne_now env w" "f\<lparr>fw_resolvers := rs, fw_counter := ctr\<rparr>" w'] rr er len ne
      by (auto simp: i_def round_robin_def)
  qed
qed

lemma all_respond_erase:
  assumes "map erase rs' = map erase rs"
  shows "all_respond env need reply reqs rs' = all_respond env need reply reqs rs"
proof -
  have "length rs' = length rs" "\<And>i. i < length rs \<Longrightarrow> erase (rs' ! i) = erase (rs ! i)"
    using assms by (metis length_map, metis length_map nth_map)
  then show ?thesis by (simp add: all_respond_def)
qed

lemma round_robin_all:
  assumes "round_robin f" "all_respond env need reply reqs (fw_resolvers f)" "snd ` set qs \<subseteq> reqs"
    "need \<le> limit" "need \<le> fw_timeout f" "unat (fw_counter f) + length qs < 2 ^ 64"
  shows "forward_all env limit qs f w =
    map (\<lambda>k. Some (reply ((unat (fw_counter f) + 1 + k) mod length (fw_resolvers f)) (snd (qs ! k)))) [0..<length qs]"
  using assms
proof (induction qs arbitrary: f w)
  case (Cons q qs)
  obtain order req where q: "q = (order, req)" by (cases q)
  let ?ctx = "with_timeout background (ne_now env w) limit"
  have "has_time ?ctx (ne_now env w) need" "req \<in> reqs" using Cons.prems(3,4) q by simp_all
  then obtain rtt f' w' where f': "Forward env order ?ctx f req w =
       Some ((Some (reply (unat (fw_counter f + 1) mod length (fw_resolvers f)) req), rtt, None), f', w')"
    "round_robin f'" "fw_counter f' = fw_counter f + 1" "fw_timeout f' = fw_timeout f"
    "map erase (fw_resolvers f') = map erase (fw_resolvers f)"
    using round_robin_step [OF Cons.prems(1,2) _ _ Cons.prems(5), of req ?ctx w order] by blast
  have ctr: "unat (fw_counter f + 1) = unat (fw_counter f) + 1"
    using Cons.prems(6) by (simp add: unat_word_ariths)
  have len: "length (fw_resolvers f') = length (fw_resolvers f)" using f'(5) by (metis length_map)
  have "forward_all env limit qs f' w' =
    map (\<lambda>k. Some (reply ((unat (fw_counter f') + 1 + k) mod length (fw_resolvers f')) (snd (qs ! k)))) [0..<length qs]"
    using Cons.IH [OF f'(2) Cons.prems(2) [folded all_respond_erase [OF f'(5)]], of w'] Cons.prems(3-6) f'(3,4) ctr
    by simp
  moreover have "[0..<length (q # qs)] = 0 # map Suc [0..<length qs]"
    by (simp only: length_Cons upt_conv_Cons map_Suc_upt zero_less_Suc)
  ultimately show ?case using f'(1,3) ctr len q by (simp add: comp_def)
qed simp

lemma rotation_counts:
  assumes "0 < n"
  shows "mset (map (\<lambda>k. (a + k) mod n) [0..<n]) = mset [0..<n]"
proof -
  have "map (\<lambda>k. (a + k) mod n) [0..<n] = rotation (a mod n) n"
    by (simp add: rotation_def mod_add_left_eq)
  moreover have "distinct (rotation (a mod n) n) \<and> set (rotation (a mod n) n) = {0..<n}"
    using assms by (intro mset_rotation) simp
  ultimately show ?thesis
    using set_eq_iff_mset_eq_distinct [of "rotation (a mod n) n" "[0..<n]"] by simp
qed

section \<open>Properties\<close>

definition example_fw :: "string \<Rightarrow> forwarder" where
  "example_fw s =
     \<lparr>fw_resolvers = [DoT example_dot, Standard example_std], fw_strategy = s, fw_timeout = Second, fw_counter = 0,
      fw_running = []\<rparr>"

lemma example_pool_ok: "pool_ok [1, 0] (example_fw s)"
  by (simp add: pool_ok_def example_fw_def upt_rec)

text \<open>
  C17. Forwarding with a non-empty pool never panics and returns either a response or an error, never both and
  never neither, under each strategy, whatever the deadline and whatever order the parallel results arrive in.  A
  response is one that a configured resolver gave to this very query, in a context made from the query's with
  the pool's timeout, and the pool keeps its resolvers.
\<close>

theorem forward_outcome:
  assumes "pool_ok order f" "copy_ok (ne_lib env)"
  shows "\<exists>resp rtt err f' w'. Forward env order ctx f req w = Some ((resp, rtt, err), f', w') \<and>
    (resp = None \<longleftrightarrow> err \<noteq> None) \<and> map erase (fw_resolvers f') = map erase (fw_resolvers f) \<and>
    (\<forall>r. resp = Some r \<longrightarrow> (\<exists>i. answer_of env ctx (fw_timeout f) req (fw_resolvers f) i r))"
  using Forward_outcome [OF assms, of ctx req w] by blast

lemma forward_outcome_witness:
  "\<exists>resp rtt err f' w'.
    Forward (example_net {}) [1, 0] background (example_fw ''parallel'') new_msg [] = Some ((resp, rtt, err), f', w') \<and>
    (resp = None \<longleftrightarrow> err \<noteq> None) \<and>
    map erase (fw_resolvers f') = map erase (fw_resolvers (example_fw ''parallel'')) \<and>
    (\<forall>r. resp = Some r \<longrightarrow> (\<exists>i. answer_of (example_net {}) background (fw_timeout (example_fw ''parallel''))
      new_msg (fw_resolvers (example_fw ''parallel'')) i r))"
proof -
  have "copy_ok (ne_lib (example_net {}))" using dns_okD [OF example_lib_ok] by (simp add: example_net_def)
  from forward_outcome [OF example_pool_ok this] show ?thesis .
qed

text \<open>
  A network with a clock, for the witnesses: the world is the time in nanoseconds.  The addresses in \<open>up\<close> answer in
  one nanosecond, those in \<open>slow\<close> never do, so that the exchange lasts until the client's timeout or the deadline,
  and the others refuse at once.
\<close>

definition clock_net :: "string set \<Rightarrow> string set \<Rightarrow> (int, string, string) net_env" where
  "clock_net up slow =
     \<lparr>ne_lib = example_lib, ne_lower = id, ne_fold = (=), ne_now = id, ne_parse_url = (\<lambda>s. None),
      ne_exchange = (\<lambda>ctx tr timeout addr req w.
        if addr \<in> up \<and> has_time ctx w 1 then ((Some (req\<lparr>mResponse := True\<rparr>), None), w + 1)
        else if addr \<in> slow then
          ((None, Some ''timeout''),
           case cx_deadline ctx of None \<Rightarrow> w + timeout | Some d \<Rightarrow> max w (min d (w + timeout)))
        else ((None, Some ''refused''), w)),
      ne_dial = (\<lambda>timeout ctx network addr w. (Inl ''refused'', w)),
      ne_pack = (\<lambda>m. Inr ''wire''), ne_unpack = (\<lambda>b. Inr new_msg), ne_new_request = (\<lambda>u. None),
      ne_do = (\<lambda>dial timeout ctx rq s. (Inl ''refused'', s))\<rparr>"

definition std_at :: "string \<Rightarrow> resolver" where
  "std_at addr = Standard \<lparr>sr_address = addr, sr_timeout = 4 * Second\<rparr>"

definition pool_of :: "string \<Rightarrow> string list \<Rightarrow> forwarder" where
  "pool_of strategy addrs =
     \<lparr>fw_resolvers = map std_at addrs, fw_strategy = strategy, fw_timeout = 4 * Second, fw_counter = 0, fw_running = []\<rparr>"

lemma erase_std_at: "erase res = erase (std_at addr) \<Longrightarrow> res = std_at addr"
  by (cases res) (simp_all add: std_at_def)

lemma clock_net_simps:
  "ne_now (clock_net up slow) w = w" "ne_lib (clock_net up slow) = example_lib"
  "ne_exchange (clock_net up slow) ctx tr timeout addr req w =
     (if addr \<in> up \<and> has_time ctx w 1 then ((Some (req\<lparr>mResponse := True\<rparr>), None), w + 1)
      else if addr \<in> slow then
        ((None, Some ''timeout''), case cx_deadline ctx of None \<Rightarrow> w + timeout | Some d \<Rightarrow> max w (min d (w + timeout)))
      else ((None, Some ''refused''), w))"
  by (simp_all add: clock_net_def)

lemma clock_std:
  "Exchange (clock_net up slow) ctx req (std_at addr) w =
     (let ((resp, err), w) = std_exchange (clock_net up slow) ctx \<lparr>sr_address = addr, sr_timeout = 4 * Second\<rparr> req w
      in ((resp, err), std_at addr, w))"
  by (simp add: std_at_def split: prod.split)

lemma clock_answers:
  "addr \<in> up \<Longrightarrow> answers_within (clock_net up slow) (\<lambda>w. True) 1 req (std_at addr)"
  unfolding answers_within_def
  by (auto dest!: erase_std_at simp: clock_std std_exchange_def clock_net_simps Let_def split: prod.splits)

lemma clock_cost:
  assumes "addr \<notin> up"
  shows "exchange_cost (clock_net up slow) (\<lambda>w. True) (4 * Second) (4 * Second) req (std_at addr)"
    and "addr \<in> slow \<Longrightarrow> hangs (clock_net up slow) (4 * Second) req (std_at addr)"
  using assms
  by (auto dest!: erase_std_at simp: exchange_cost_def hangs_def clock_std std_exchange_def
      clock_net_simps Let_def Second_def)


lemma clock_up_cost:
  assumes "addr \<in> up"
  shows "exchange_cost (clock_net up {}) (\<lambda>w. True) (4 * Second) (4 * Second) req (std_at addr)"
    and "addr \<notin> slow \<Longrightarrow> obeys_deadline (clock_net up slow) req (std_at addr)"
  using assms
  by (auto dest!: erase_std_at simp: exchange_cost_def obeys_deadline_def clock_std std_exchange_def
      clock_net_simps Let_def Second_def has_time_def split: option.splits)

text \<open>
  C16. One working upstream is enough while the deadline lasts.  If the \<open>k\<close>-th result that is awaited is that of a
  resolver which responds whenever it is given \<open>need\<close> nanoseconds, every exchange takes at most \<open>cost\<close>
  nanoseconds, and the context that all attempts share lasts \<open>k * cost + need\<close> more, then the query gets a
  response, under each strategy.  In the sequential strategies the pool's timeout, which every attempt gets anew,
  must cover \<open>need\<close>; in the parallel strategy it runs from the start, and \<open>cost\<close> bounds the time between two arrivals.
\<close>

theorem one_working_upstream_suffices:
  assumes "pool_ok order f" "copy_ok (ne_lib env)" "k < length (fw_resolvers f)"
    and "answers_within env up need req (fw_resolvers f ! (awaited order f ! k))"
    and "\<forall>res \<in> set (fw_resolvers f). exchange_cost env up (fw_timeout f) cost req res"
    and "up w" "has_time ctx (ne_now env w) (int k * cost + need)"
    and "(if fw_strategy f = ''parallel'' then int k * cost + need else need) \<le> fw_timeout f"
  shows "\<exists>r rtt f' w'. Forward env order ctx f req w = Some ((Some r, rtt, None), f', w')"
  using assms by (rule Forward_answers)

lemma pool_of_ok: "addrs \<noteq> [] \<Longrightarrow> length addrs < 2 ^ 64 \<Longrightarrow> pool_ok [0..<length addrs] (pool_of strategy addrs)"
  by (simp add: pool_ok_def pool_of_def)

lemma one_working_upstream_suffices_witness:
  "\<exists>r rtt f' w'. Forward (clock_net {''9.9.9.9:53''} {}) [0..<2] (with_timeout background 0 (5 * Second))
     (pool_of ''failover'' [''1.1.1.1:53'', ''9.9.9.9:53'']) new_msg 0 = Some ((Some r, rtt, None), f', w')"
proof (rule one_working_upstream_suffices [where k = 1 and cost = "4 * Second" and need = 1 and up = "\<lambda>w. True"])
  have "pool_ok [0..<length [''1.1.1.1:53'', ''9.9.9.9:53'']] (pool_of ''failover'' [''1.1.1.1:53'', ''9.9.9.9:53''])"
    by (rule pool_of_ok) simp_all
  then show "pool_ok [0..<2] (pool_of ''failover'' [''1.1.1.1:53'', ''9.9.9.9:53''])" by (simp add: numeral_2_eq_2)
  show "copy_ok (ne_lib (clock_net {''9.9.9.9:53''} {}))"
    using dns_okD [OF example_lib_ok] by (simp add: clock_net_simps)
  show "answers_within (clock_net {''9.9.9.9:53''} {}) (\<lambda>w. True) 1 new_msg
      (fw_resolvers (pool_of ''failover'' [''1.1.1.1:53'', ''9.9.9.9:53'']) !
       (awaited [0..<2] (pool_of ''failover'' [''1.1.1.1:53'', ''9.9.9.9:53'']) ! 1))"
    by (simp add: pool_of_def awaited_def visit_order_def upt_rec clock_answers)
  show "\<forall>res \<in> set (fw_resolvers (pool_of ''failover'' [''1.1.1.1:53'', ''9.9.9.9:53''])).
      exchange_cost (clock_net {''9.9.9.9:53''} {}) (\<lambda>w. True)
        (fw_timeout (pool_of ''failover'' [''1.1.1.1:53'', ''9.9.9.9:53''])) (4 * Second) new_msg res"
    using clock_cost(1) [of "''1.1.1.1:53''" "{''9.9.9.9:53''}" "{}" new_msg]
      clock_up_cost(1) [of "''9.9.9.9:53''" "{''9.9.9.9:53''}" new_msg] by (simp add: pool_of_def)
qed (simp_all add: pool_of_def clock_net_simps Second_def)



text \<open>
  C18. Failover keeps the configured priority: a response comes from a resolver all of whose predecessors in
  the configuration were asked first, one after the other, and failed.
\<close>

theorem failover_priority:
  assumes "fw_strategy f = ''failover''" "Forward env order ctx f req w = Some ((Some r, rtt, err), f', w')"
  shows "\<exists>i s1 s2 e. i < length (fw_resolvers f) \<and>
    try_each (attempt env ctx (fw_timeout f) req) [0..<i] None (fw_resolvers f, w) = (Inl e, s1) \<and>
    attempt env ctx (fw_timeout f) req i s1 = ((Some r, None), s2)"
proof -
  obtain res rs w1 where t:
    "try_each (attempt env ctx (fw_timeout f) req) [0..<length (fw_resolvers f)] None (fw_resolvers f, w) = (res, rs, w1)"
    by (metis prod.exhaust)
  have "res = Inr r"
    using assms t by (cases res) (auto simp: Forward_def forwardFailover_def)
  then obtain us i vs e s1 where split: "[0..<length (fw_resolvers f)] = us @ i # vs"
    "try_each (attempt env ctx (fw_timeout f) req) us None (fw_resolvers f, w) = (Inl e, s1)"
    "attempt env ctx (fw_timeout f) req i s1 = ((Some r, None), rs, w1)"
    using pool.try_each_Inr [OF pool_inv_refl] t by metis
  have len: "length us < length (fw_resolvers f)"
    using arg_cong [OF split(1), of length] by simp
  have "us = take (length us) [0..<length (fw_resolvers f)]" "i = [0..<length (fw_resolvers f)] ! length us"
    using split(1) by simp_all
  then have "us = [0..<length us]" "i = length us" using len by simp_all
  then show ?thesis using split(2,3) len by metis
qed

lemma failover_priority_witness:
  "\<exists>i s1 s2 e. i < length (fw_resolvers (example_fw ''failover'')) \<and>
    try_each (attempt (example_net {''9.9.9.9:53''}) background Second new_msg) [0..<i] None
      (fw_resolvers (example_fw ''failover''), []) = (Inl e, s1) \<and>
    attempt (example_net {''9.9.9.9:53''}) background Second new_msg i s1 = ((Some (new_msg\<lparr>mId := 0, mResponse := True\<rparr>), None), s2)"
proof -
  have down: "dot_exchange (example_net {''9.9.9.9:53''}) ctx example_dot new_msg [] =
     ((None, Some (DotBootstrapErr ''x'' (Some ''down''))), example_dot\<lparr>dc_ipCounter := 1\<rparr>,
      [''1.1.1.1:853'', ''9.9.9.9:853''])" for ctx
    by (simp add: dot_exchange_def example_dot_def next_start_def rotated_def rotation_def dot_attempt_def
      example_net_def JoinHostPort_def restore_id_def Let_def upt_rec)
  have std: "std_exchange (example_net {''9.9.9.9:53''}) ctx example_std new_msg w =
     ((Some (new_msg\<lparr>mId := 0, mResponse := True\<rparr>), None), w @ [''9.9.9.9:53''])" for w ctx
    by (simp add: std_exchange_def example_net_def example_std_def Let_def new_msg_def)
  have up: "[0..<2] = [0, 1::nat]" by (simp add: upt_rec)
  have "\<exists>f' w'. Forward (example_net {''9.9.9.9:53''}) [1, 0] background (example_fw ''failover'') new_msg [] =
     Some ((Some (new_msg\<lparr>mId := 0, mResponse := True\<rparr>), 3, None), f', w')"
    by (simp add: Forward_def forwardFailover_def example_fw_def attempt_def exchange_at_def Exchange_DoT down std up
        example_net_def [THEN arg_cong, of ne_now] del: Exchange.simps(2))
  then obtain f' w' where "Forward (example_net {''9.9.9.9:53''}) [1, 0] background (example_fw ''failover'') new_msg [] =
     Some ((Some (new_msg\<lparr>mId := 0, mResponse := True\<rparr>), 3, None), f', w')" by blast
  from failover_priority [OF _ this] show ?thesis by (simp add: example_fw_def)
qed

text \<open>
  C19. Round-robin is fair: while all resolvers respond, of as many consecutive queries as there are resolvers each
  resolver answers exactly one, in the order of the pool from the one after the counter, and every query gets the
  response of its resolver, as long as the 64-bit counter does not wrap around.
\<close>

theorem round_robin_fair:
  assumes "round_robin f" "all_respond env need reply (snd ` set qs) (fw_resolvers f)"
    "need \<le> limit" "need \<le> fw_timeout f" "length qs = length (fw_resolvers f)" "unat (fw_counter f) + length qs < 2 ^ 64"
  shows "\<exists>served. mset served = mset [0..<length (fw_resolvers f)] \<and>
    served = map (\<lambda>k. (unat (fw_counter f) + 1 + k) mod length (fw_resolvers f)) [0..<length qs] \<and>
    forward_all env limit qs f w = map2 (\<lambda>i q. Some (reply i (snd q))) served qs"
proof (intro exI conjI)
  let ?served = "map (\<lambda>k. (unat (fw_counter f) + 1 + k) mod length (fw_resolvers f)) [0..<length qs]"
  show "mset ?served = mset [0..<length (fw_resolvers f)]"
    using rotation_counts [of "length (fw_resolvers f)" "unat (fw_counter f) + 1"] assms(1,5)
    by (simp add: round_robin_def)
  show "forward_all env limit qs f w = map2 (\<lambda>i q. Some (reply i (snd q))) ?served qs"
    unfolding round_robin_all [OF assms(1,2) subset_refl assms(3,4,6)]
    by (rule nth_equalityI) simp_all
qed simp

text \<open>For the witness: a network in which each address signs its responses.\<close>

definition signing_net :: "(string list, string, string) net_env" where
  "signing_net = (example_net {})\<lparr>ne_exchange := (\<lambda>ctx tr timeout addr req w.
     ((Some (req\<lparr>mTruncated := False, mQuestion := [\<lparr>qName = addr, qType = TypeA, qClass = ClassINET\<rparr>]\<rparr>), None), w @ [addr]))\<rparr>"

lemma round_robin_fair_witness:
  "map (map_option (\<lambda>m. map qName (mQuestion m)))
     (forward_all signing_net Second [([], new_msg), ([], new_msg)] (pool_of ''round_robin'' [''a:53'', ''b:53'']) []) =
   [Some [''b:53''], Some [''a:53'']]"
proof -
  let ?f = "pool_of ''round_robin'' [''a:53'', ''b:53'']"
    and ?reply = "\<lambda>i req. req\<lparr>mTruncated := False,
      mQuestion := [\<lparr>qName = [''a:53'', ''b:53''] ! i, qType = TypeA, qClass = ClassINET\<rparr>]\<rparr>"
  have rr: "round_robin ?f" "fw_timeout ?f = 4 * Second" "length (fw_resolvers ?f) = 2" "fw_counter ?f = 0"
    by (simp_all add: round_robin_def pool_of_def)
  have all: "all_respond signing_net 0 ?reply (snd ` set [([], new_msg), ([], new_msg)]) (fw_resolvers ?f)"
    unfolding all_respond_def
  proof (intro allI impI ballI)
    fix i req res ctx w
    assume "i < length (fw_resolvers ?f)" and
      "erase res = erase (fw_resolvers ?f ! i) \<and> has_time ctx (ne_now signing_net w) 0"
    then have "res = std_at ([''a:53'', ''b:53''] ! i)"
      by (auto simp: pool_of_def nth_Cons split: nat.splits dest: erase_std_at)
    then show "fst (Exchange signing_net ctx req res w) = (Some (?reply i req), None)"
      by (simp add: std_at_def signing_net_def std_exchange_def)
  qed
  have "forward_all signing_net Second [([], new_msg), ([], new_msg)] ?f [] =
      [Some (?reply 1 new_msg), Some (?reply 0 new_msg)]"
    using round_robin_fair [OF rr(1) all, of Second "[]"] rr
    by (auto simp: Second_def upt_rec simp del: forward_all.simps)
  then show ?thesis by simp
qed

end
