(* ===== verification/Logging.thy ===== *)
theory Logging
  imports Go_Prelude
begin

text \<open>
  What the program writes with the structured logger \<^verbatim>\<open>log/slog\<close>: a list of events, oldest first.  A
  logger that was created with a minimum level prints those at or above it.  The values of attributes
  are kept as they are passed; an error of the network is opaque.
\<close>

datatype log_level = LevelDebug | LevelInfo | LevelWarn | LevelError

fun level_num :: "log_level \<Rightarrow> int" where
  "level_num LevelDebug = - 4"
| "level_num LevelInfo = 0"
| "level_num LevelWarn = 4"
| "level_num LevelError = 8"

instantiation log_level :: linorder
begin

definition less_eq_log_level :: "log_level \<Rightarrow> log_level \<Rightarrow> bool" where
  "less_eq_log_level a b \<longleftrightarrow> level_num a \<le> level_num b"

definition less_log_level :: "log_level \<Rightarrow> log_level \<Rightarrow> bool" where
  "less_log_level a b \<longleftrightarrow> level_num a < level_num b"

instance
proof
  fix a b :: log_level
  show "a \<le> b \<Longrightarrow> b \<le> a \<Longrightarrow> a = b"
    by (cases a; cases b) (simp_all add: less_eq_log_level_def)
qed (auto simp: less_eq_log_level_def less_log_level_def)

end

lemma level_le_simps [simp]:
  "LevelInfo \<le> LevelDebug \<longleftrightarrow> False" "LevelInfo \<le> LevelInfo" "LevelInfo \<le> LevelWarn" "LevelInfo \<le> LevelError"
  "LevelDebug \<le> l" "LevelWarn \<le> LevelDebug \<longleftrightarrow> False" "LevelError \<le> LevelDebug \<longleftrightarrow> False"
  "LevelWarn \<le> LevelWarn" "LevelWarn \<le> LevelInfo \<longleftrightarrow> False"
  by (cases l; simp add: less_eq_log_level_def)+

datatype 'x log_value =
    V_Str string
  | V_Strs "string list"
  | V_Int int
  | V_Bool bool
  | V_Err "'x option"

record 'x log_event =
  le_level :: log_level
  le_msg :: string
  le_attrs :: "(string \<times> 'x log_value) list"

definition printed :: "log_level \<Rightarrow> 'x log_event list \<Rightarrow> 'x log_event list" where
  "printed lvl = filter (\<lambda>e. lvl \<le> le_level e)"

lemma printed_simps [simp]:
  "printed lvl [] = []"
  "printed lvl (es @ fs) = printed lvl es @ printed lvl fs"
  "printed lvl (e # es) = (if lvl \<le> le_level e then e # printed lvl es else printed lvl es)"
  by (simp_all add: printed_def)

text \<open>The texts an event shows.\<close>

fun value_texts :: "'x log_value \<Rightarrow> string list" where
  "value_texts (V_Str s) = [s]"
| "value_texts (V_Strs ss) = ss"
| "value_texts _ = []"

definition event_texts :: "'x log_event \<Rightarrow> string list" where
  "event_texts e = le_msg e # concat (map (value_texts \<circ> snd) (le_attrs e))"

end
