(* ===== verification/Handler.thy ===== *)
theory Handler
  imports Filter_Engine Ring_Buffer Opsec Response_Cache Forwarder Logging
begin

text \<open>
  \<^verbatim>\<open>internal/dns/handler.go\<close>: what the daemon does with one query.

  A handler works on two things: the values its struct points to (engine, forwarder, cache, ring buffer),
  which are the record \<open>handler\<close>, and its effects, the record \<open>io\<close>: the state of the network, the events
  written to the logger and the messages passed to \<^verbatim>\<open>WriteMsg\<close> (whose error is ignored).  \<open>ServeDNS\<close> is
  split where it waits for the network: \<open>serve_local\<close> is what comes before the call of the forwarder and
  \<open>after_forward\<close> what comes after it.  An outer \<open>None\<close> is a panic.  The clock is read through
  \<open>ne_now\<close>; within one phase of a query it stands still, and \<open>forward_step\<close>, the call of the forwarder, moves it on.
\<close>

section \<open>State\<close>

record query_log_entry =
  ql_Timestamp :: int
  ql_Domain :: string
  ql_Qtype :: u16
  ql_Status :: string
  ql_RTT :: duration

record 're handler =
  h_cfg :: config
  h_filter :: "'re engine"
  h_forwarder :: forwarder
  h_cache :: cache
  h_ringBuffer :: "query_log_entry ring_buffer option"
  h_zeroIPv4 :: ip
  h_zeroIPv6 :: ip

record ('w, 'e) io =
  io_world :: 'w
  io_log :: "'e fw_err log_event list"
  io_written :: "msg list"

text \<open>The environment of a handler; \<^verbatim>\<open>dns.TypeToString\<close> is a table of the library.\<close>

record ('w, 'c, 'e, 're) handler_env =
  he_net :: "('w, 'c, 'e) net_env"
  he_engine :: "'re engine_env"
  he_type_name :: "u16 \<Rightarrow> string"

abbreviation he_lib :: "('w, 'c, 'e, 're) handler_env \<Rightarrow> dnslib" where
  "he_lib env \<equiv> ne_lib (he_net env)"

abbreviation he_lower :: "('w, 'c, 'e, 're) handler_env \<Rightarrow> string \<Rightarrow> string" where
  "he_lower env \<equiv> ne_lower (he_net env)"

definition now_of :: "('w, 'c, 'e, 're) handler_env \<Rightarrow> ('w, 'e) io \<Rightarrow> int" where
  "now_of env io = ne_now (he_net env) (io_world io)"

definition emit ::
  "log_level \<Rightarrow> string \<Rightarrow> (string \<times> 'e fw_err log_value) list \<Rightarrow> ('w, 'e) io \<Rightarrow> ('w, 'e) io" where
  "emit lvl text attrs io = io\<lparr>io_log := io_log io @ [\<lparr>le_level = lvl, le_msg = text, le_attrs = attrs\<rparr>]\<rparr>"

definition WriteMsg :: "msg \<Rightarrow> ('w, 'e) io \<Rightarrow> ('w, 'e) io" where
  "WriteMsg m io = io\<lparr>io_written := io_written io @ [m]\<rparr>"

definition NewHandler :: "config \<Rightarrow> 're engine \<Rightarrow> forwarder \<Rightarrow> cache \<Rightarrow> 're handler" where
  "NewHandler cfg filterEngine fwd cache =
     (let zeroIPv4 = (case ParseIP (CustomZeroIPv4 (Blocking cfg)) of Some a \<Rightarrow> a | None \<Rightarrow> IPv4zero);
          zeroIPv6 = (case ParseIP (CustomZeroIPv6 (Blocking cfg)) of Some a \<Rightarrow> a | None \<Rightarrow> IPv6zero);
          rbSize = (if RingBufferSize (OpSec cfg) \<le> 0 then 1000 else RingBufferSize (OpSec cfg))
      in \<lparr>h_cfg = cfg, h_filter = filterEngine, h_forwarder = fwd, h_cache = cache,
          h_ringBuffer = Some (NewRingBuffer rbSize), h_zeroIPv4 = zeroIPv4, h_zeroIPv6 = zeroIPv6\<rparr>)"

definition RingBuffer :: "'re handler \<Rightarrow> query_log_entry ring_buffer option" where
  "RingBuffer h = h_ringBuffer h"

section \<open>Logging a query\<close>

definition logQuery ::
  "('w, 'c, 'e, 're) handler_env \<Rightarrow> string \<Rightarrow> string \<Rightarrow> u16 \<Rightarrow> duration \<Rightarrow>
     're handler \<Rightarrow> ('w, 'e) io \<Rightarrow> 're handler \<times> ('w, 'e) io" where
  "logQuery env status domain qtype rtt h io =
     (let h = (if h_ringBuffer h \<noteq> None then
                 h\<lparr>h_ringBuffer := Push (h_ringBuffer h)
                     (Some \<lparr>ql_Timestamp = now_of env io, ql_Domain = domain, ql_Qtype = qtype,
                            ql_Status = status, ql_RTT = rtt\<rparr>)\<rparr>
               else h)
      in if ZeroLog (OpSec (h_cfg h)) then
           (if status = ''blocked'' then
              (h, emit LevelDebug ''sinkholed domain query''
                    [(''domain'', V_Str domain), (''type'', V_Str (he_type_name env qtype)),
                     (''action'', V_Str ''blocked'')] io)
            else (h, io))
         else
           (h, emit LevelDebug ''dns query processed''
                 [(''status'', V_Str status), (''domain'', V_Str domain),
                  (''type'', V_Str (he_type_name env qtype)), (''rtt'', V_Int rtt)] io))"

section \<open>Sinkhole\<close>

definition sinkhole_hdr :: "question \<Rightarrow> u16 \<Rightarrow> u32 \<Rightarrow> rr_hdr" where
  "sinkhole_hdr q t ttl = \<lparr>hName = qName q, hRrtype = t, hClass = ClassINET, hTtl = ttl\<rparr>"

definition sinkhole_reply :: "('w, 'c, 'e, 're) handler_env \<Rightarrow> 're handler \<Rightarrow> msg \<Rightarrow> question \<Rightarrow> msg" where
  "sinkhole_reply env h r q =
     (let resp = SetReply (he_lib env) new_msg r;
          resp = resp\<lparr>mAuthoritative := True\<rparr>;
          resp = resp\<lparr>mRecursionAvailable := True\<rparr>;
          ttl = (if TTL (Blocking (h_cfg h)) = 0 then 300 else TTL (Blocking (h_cfg h)))
      in if BlockMode (Blocking (h_cfg h)) = ''nxdomain'' then resp\<lparr>mRcode := RcodeNameError\<rparr>
         else if qType q = TypeA then resp\<lparr>mAnswer := [RR_A (sinkhole_hdr q TypeA ttl) (h_zeroIPv4 h)]\<rparr>
         else if qType q = TypeAAAA then resp\<lparr>mAnswer := [RR_AAAA (sinkhole_hdr q TypeAAAA ttl) (h_zeroIPv6 h)]\<rparr>
         else resp\<lparr>mRcode := RcodeSuccess\<rparr>)"

definition handleBlocked ::
  "('w, 'c, 'e, 're) handler_env \<Rightarrow> msg \<Rightarrow> question \<Rightarrow> string \<Rightarrow> 're handler \<Rightarrow> ('w, 'e) io \<Rightarrow>
     're handler \<times> ('w, 'e) io" where
  "handleBlocked env r q domain h io =
     (let (h, io) = logQuery env ''blocked'' domain (qType q) 0 h io
      in (h, WriteMsg (sinkhole_reply env h r q) io))"

section \<open>The upstream query\<close>

definition set_qname :: "string \<Rightarrow> msg \<Rightarrow> msg" where
  "set_qname name m =
     m\<lparr>mQuestion := (case mQuestion m of [] \<Rightarrow> [] | q # qs \<Rightarrow> q\<lparr>qName := name\<rparr> # qs)\<rparr>"

definition strip_ecs :: "edns0 list \<Rightarrow> edns0 list" where
  "strip_ecs = filter (\<lambda>x. option_code x \<noteq> EDNS0SUBNET)"

definition set_do :: "dnslib \<Rightarrow> nat \<Rightarrow> msg \<Rightarrow> msg" where
  "set_do lib i m =
     m\<lparr>mExtra := (mExtra m)[i := set_header (SetDo lib (rr_header (mExtra m ! i))) (mExtra m ! i)]\<rparr>"

text \<open>Lines 168 to 187: the OPT record.\<close>

definition edns_step :: "('w, 'c, 'e, 're) handler_env \<Rightarrow> 're handler \<Rightarrow> msg \<Rightarrow> msg" where
  "edns_step env h req =
     (let lib = he_lib env; dnssec = DNSSEC (Server (h_cfg h)) in
      case IsEdns0 lib req of
        Some i \<Rightarrow>
          (let req = set_options i (strip_ecs (get_options req i)) req
           in if dnssec then set_do lib i req else req)
      | None \<Rightarrow>
          if dnssec \<or> EDNS0Padding (OpSec (h_cfg h)) then SetEdns0 lib req 1232 dnssec else req)"

definition prepareUpstreamQuery ::
  "('w, 'c, 'e, 're) handler_env \<Rightarrow> (nat \<Rightarrow> u8 list) \<Rightarrow> 're handler \<Rightarrow> msg \<Rightarrow> msg option" where
  "prepareUpstreamQuery env rand h r =
     (let opsec = OpSec (h_cfg h);
          req = Copy (he_lib env) r;
          req = (if DNS0x20 opsec \<and> length (mQuestion req) > 0
                 then set_qname (Randomize0x20 rand (qName (hd (mQuestion req)))) req else req);
          req = edns_step env h req
      in if EDNS0Padding opsec then ApplyEDNS0Padding (he_lib env) req (PaddingBlockSize opsec) else Some req)"

section \<open>The handler\<close>

datatype 's phase = Replied 's | Pending msg msg 's

definition serve_local ::
  "('w, 'c, 'e, 're) handler_env \<Rightarrow> (nat \<Rightarrow> u8 list) \<Rightarrow> msg option \<Rightarrow> 're handler \<times> ('w, 'e) io \<Rightarrow>
     ('re handler \<times> ('w, 'e) io) phase option" where
  "serve_local env rand r0 = (\<lambda>(h, io).
     (let lib = he_lib env in
      case r0 of
        None \<Rightarrow> map_option (\<lambda>m. Replied (h, WriteMsg m io)) (SetRcode lib new_msg None RcodeFormatError)
      | Some r \<Rightarrow>
          if length (mQuestion r) = 0 then
            map_option (\<lambda>m. Replied (h, WriteMsg m io)) (SetRcode lib new_msg (Some r) RcodeFormatError)
          else
            (let q = hd (mQuestion r);
                 qname = to_lower (he_lower env) (Fqdn lib (qName q))
             in if IsBlocked (he_engine env) (h_filter h) qname then
                  Some (Replied (handleBlocked env r q qname h io))
                else
                  (case Get lib (he_lower env) (now_of env io) (Some r) (h_cache h) of
                     (Some cachedResp, cache) \<Rightarrow>
                       (let (h, io) = logQuery env ''cache_hit'' qname (qType q) 0 (h\<lparr>h_cache := cache\<rparr>) io
                        in Some (Replied (h, WriteMsg cachedResp io)))
                   | (None, cache) \<Rightarrow>
                       (let h = h\<lparr>h_cache := cache\<rparr>
                        in map_option (\<lambda>req. Pending r req (h, io)) (prepareUpstreamQuery env rand h r))))))"

text \<open>Step 6: the first alias target that is blocked.\<close>

fun blocked_alias :: "('w, 'c, 'e, 're) handler_env \<Rightarrow> 're engine \<Rightarrow> rr list \<Rightarrow> string option" where
  "blocked_alias env eng [] = None"
| "blocked_alias env eng (RR_CNAME hdr tgt # rrs) =
     (let cnameTarget = to_lower (he_lower env) (Fqdn (he_lib env) tgt)
      in if IsBlocked (he_engine env) eng cnameTarget then Some cnameTarget
         else blocked_alias env eng rrs)"
| "blocked_alias env eng (rr # rrs) = blocked_alias env eng rrs"

text \<open>Steps 5 to 8, with the answer of the forwarder; \<open>None\<close> for the dereference of a nil response.\<close>

definition check_casing ::
  "('w, 'c, 'e, 're) handler_env \<Rightarrow> msg \<Rightarrow> msg \<Rightarrow> string \<Rightarrow> 're handler \<Rightarrow> ('w, 'e) io \<Rightarrow> ('w, 'e) io option" where
  "check_casing env req resp qname h io =
     (if DNS0x20 (OpSec (h_cfg h)) \<and> length (mQuestion resp) > 0 then
        (if mQuestion req = [] then None
         else if \<not> Is0x20Match (qName (hd (mQuestion req))) (qName (hd (mQuestion resp))) then
           Some (emit LevelDebug ''upstream altered 0x20 case, applying soft fallback''
             [(''domain'', V_Str qname), (''expected'', V_Str (qName (hd (mQuestion req)))),
              (''received'', V_Str (qName (hd (mQuestion resp))))] io)
         else Some io)
      else Some io)"

definition restore_name :: "msg \<Rightarrow> msg \<Rightarrow> msg" where
  "restore_name r resp =
     (if length (mQuestion resp) > 0 then set_qname (qName (hd (mQuestion r))) resp else resp)"

definition deliver ::
  "('w, 'c, 'e, 're) handler_env \<Rightarrow> msg \<Rightarrow> question \<Rightarrow> string \<Rightarrow> duration \<Rightarrow> msg \<Rightarrow> 're handler \<Rightarrow> ('w, 'e) io \<Rightarrow>
     're handler \<times> ('w, 'e) io" where
  "deliver env r q qname rtt resp0 h io =
     (let blocking = Blocking (h_cfg h); opsec = OpSec (h_cfg h); lib = he_lib env;
          resp = restore_name r resp0;
          alias = (if CNAMEUncloaking blocking \<and> length (mAnswer resp) > 0
                   then blocked_alias env (h_filter h) (mAnswer resp) else None)
      in case alias of
           Some cnameTarget \<Rightarrow>
             handleBlocked env r q qname h
               (emit LevelDebug ''blocked cloaked CNAME tracker''
                  [(''domain'', V_Str qname), (''cname_target'', V_Str cnameTarget)] io)
         | None \<Rightarrow>
             if DNSRebindingProtection opsec \<and> length (mAnswer resp) > 0 \<and>
               FilterDNSRebinding (he_lower env) (Some resp) qname (AllowedLocalDomains opsec) then
               handleBlocked env r q qname h
                 (emit LevelWarn ''blocked DNS rebinding attack resolving to private/local IP''
                    [(''domain'', V_Str qname), (''answers_count'', V_Int (int (length (mAnswer resp))))] io)
             else
               (let resp = resp\<lparr>mId := mId r\<rparr>;
                    h = h\<lparr>h_cache := Set lib (he_lower env) (now_of env io) (Some r) (Some resp) (h_cache h)\<rparr>;
                    (h, io) = logQuery env ''forwarded'' qname (qType q) rtt h io
                in (h, WriteMsg resp io)))"

definition after_forward ::
  "('w, 'c, 'e, 're) handler_env \<Rightarrow> msg \<Rightarrow> msg \<Rightarrow> msg option \<times> duration \<times> 'e fw_err option \<Rightarrow>
     're handler \<times> ('w, 'e) io \<Rightarrow> ('re handler \<times> ('w, 'e) io) option" where
  "after_forward env r req = (\<lambda>(resp, rtt, err) (h, io).
     (let q = hd (mQuestion r);
          qname = to_lower (he_lower env) (Fqdn (he_lib env) (qName q))
      in case err of
           Some e \<Rightarrow>
             (let io = emit LevelWarn ''upstream resolution failed''
                    [(''domain'', V_Str qname), (''type'', V_Str (he_type_name env (qType q))),
                     (''error'', V_Err (Some e))] io
              in map_option (\<lambda>m. (h, WriteMsg m io)) (SetRcode (he_lib env) new_msg (Some r) RcodeServerFailure))
         | None \<Rightarrow>
             (case resp of
                None \<Rightarrow> None
              | Some resp \<Rightarrow>
                  map_option (deliver env r q qname rtt resp h) (check_casing env req resp qname h io))))"

text \<open>Step 4: the context of the query, which all the upstream exchanges made for it share.\<close>

definition query_context :: "('w, 'c, 'e, 're) handler_env \<Rightarrow> 're handler \<Rightarrow> ('w, 'e) io \<Rightarrow> go_ctx" where
  "query_context env h io =
     with_timeout background (now_of env io) (Timeout (Upstream (h_cfg h)) + 1 * Second)"

definition forward_step ::
  "('w, 'c, 'e, 're) handler_env \<Rightarrow> nat list \<Rightarrow> msg \<Rightarrow> 're handler \<times> ('w, 'e) io \<Rightarrow>
     ((msg option \<times> duration \<times> 'e fw_err option) \<times> 're handler \<times> ('w, 'e) io) option" where
  "forward_step env order req = (\<lambda>(h, io).
     (let ctx = query_context env h io
      in map_option (\<lambda>(res, f, w). (res, h\<lparr>h_forwarder := f\<rparr>, io\<lparr>io_world := w\<rparr>))
           (Forward (he_net env) order ctx (h_forwarder h) req (io_world io))))"

definition ServeDNS ::
  "('w, 'c, 'e, 're) handler_env \<Rightarrow> (nat \<Rightarrow> u8 list) \<Rightarrow> nat list \<Rightarrow> msg option \<Rightarrow>
     're handler \<times> ('w, 'e) io \<Rightarrow> ('re handler \<times> ('w, 'e) io) option" where
  "ServeDNS env rand order r s =
     (case serve_local env rand r s of
        None \<Rightarrow> None
      | Some (Replied s) \<Rightarrow> Some s
      | Some (Pending r req s) \<Rightarrow>
          (case forward_step env order req s of
             None \<Rightarrow> None
           | Some (res, s) \<Rightarrow> after_forward env r req res s))"

end
