(* ===== verification/Handler_Safety.thy ===== *)
theory Handler_Safety
  imports Handler
begin

text \<open>
  What the handler guarantees for one query: the lemmas about its phases, the invariant of its state, and
  the properties of the answers that a client gets, the ones from the cache included.
\<close>

section \<open>Frames\<close>

lemma emit_frame [simp]:
  "io_world (emit l t a io) = io_world io" "io_written (emit l t a io) = io_written io"
  "io_log (emit l t a io) = io_log io @ [\<lparr>le_level = l, le_msg = t, le_attrs = a\<rparr>]"
  by (simp_all add: emit_def)

lemma WriteMsg_frame [simp]:
  "io_world (WriteMsg m io) = io_world io" "io_written (WriteMsg m io) = io_written io @ [m]"
  "io_log (WriteMsg m io) = io_log io"
  by (simp_all add: WriteMsg_def)

lemma now_of_frame [simp]: "now_of env (emit l t a io) = now_of env io" "now_of env (WriteMsg m io) = now_of env io"
  by (simp_all add: now_of_def)

lemma logQuery_frame [simp]:
  "h_cfg (fst (logQuery env st d t rtt h io)) = h_cfg h"
  "h_filter (fst (logQuery env st d t rtt h io)) = h_filter h"
  "h_forwarder (fst (logQuery env st d t rtt h io)) = h_forwarder h"
  "h_cache (fst (logQuery env st d t rtt h io)) = h_cache h"
  "h_zeroIPv4 (fst (logQuery env st d t rtt h io)) = h_zeroIPv4 h"
  "h_zeroIPv6 (fst (logQuery env st d t rtt h io)) = h_zeroIPv6 h"
  "io_world (snd (logQuery env st d t rtt h io)) = io_world io"
  "io_written (snd (logQuery env st d t rtt h io)) = io_written io"
  by (simp_all add: logQuery_def Let_def)

lemma sinkhole_reply_frame [simp]:
  "sinkhole_reply env (fst (logQuery env st d t rtt h io)) r q = sinkhole_reply env h r q"
  "sinkhole_reply env (h\<lparr>h_cache := c\<rparr>) r q = sinkhole_reply env h r q"
  "sinkhole_reply env (h\<lparr>h_forwarder := f\<rparr>) r q = sinkhole_reply env h r q"
  by (simp_all add: sinkhole_reply_def Let_def)

lemma handleBlocked_frame [simp]:
  "h_cfg (fst (handleBlocked env r q d h io)) = h_cfg h"
  "h_filter (fst (handleBlocked env r q d h io)) = h_filter h"
  "h_forwarder (fst (handleBlocked env r q d h io)) = h_forwarder h"
  "h_cache (fst (handleBlocked env r q d h io)) = h_cache h"
  "h_zeroIPv4 (fst (handleBlocked env r q d h io)) = h_zeroIPv4 h"
  "h_zeroIPv6 (fst (handleBlocked env r q d h io)) = h_zeroIPv6 h"
  "io_world (snd (handleBlocked env r q d h io)) = io_world io"
  "io_written (snd (handleBlocked env r q d h io)) = io_written io @ [sinkhole_reply env h r q]"
  by (simp_all add: handleBlocked_def case_prod_beta)

section \<open>The phases\<close>

abbreviation qname_of :: "('w, 'c, 'e, 're) handler_env \<Rightarrow> msg \<Rightarrow> string" where
  "qname_of env r \<equiv> to_lower (he_lower env) (Fqdn (he_lib env) (qName (hd (mQuestion r))))"

definition blocked :: "('w, 'c, 'e, 're) handler_env \<Rightarrow> 're handler \<Rightarrow> msg \<Rightarrow> bool" where
  "blocked env h r = IsBlocked (he_engine env) (h_filter h) (qname_of env r)"

definition lookup ::
  "('w, 'c, 'e, 're) handler_env \<Rightarrow> msg \<Rightarrow> 're handler \<Rightarrow> ('w, 'e) io \<Rightarrow> msg option \<times> cache" where
  "lookup env r h io = Get (he_lib env) (he_lower env) (now_of env io) (Some r) (h_cache h)"

lemma serve_local_blocked:
  "mQuestion r \<noteq> [] \<Longrightarrow> blocked env h r \<Longrightarrow>
     serve_local env rand (Some r) (h, io) =
       Some (Replied (handleBlocked env r (hd (mQuestion r)) (qname_of env r) h io))"
  by (simp add: serve_local_def blocked_def Let_def)

lemma serve_local_hit:
  assumes "mQuestion r \<noteq> []" "\<not> blocked env h r" "lookup env r h io = (Some m, c)"
  shows "serve_local env rand (Some r) (h, io) =
    (let (h, io) = logQuery env ''cache_hit'' (qname_of env r) (qType (hd (mQuestion r))) 0 (h\<lparr>h_cache := c\<rparr>) io
     in Some (Replied (h, WriteMsg m io)))"
  using assms by (simp add: serve_local_def blocked_def lookup_def Let_def)

lemma serve_local_miss:
  assumes "mQuestion r \<noteq> []" "\<not> blocked env h r" "lookup env r h io = (None, c)"
  shows "serve_local env rand (Some r) (h, io) =
    map_option (\<lambda>req. Pending r req (h\<lparr>h_cache := c\<rparr>, io)) (prepareUpstreamQuery env rand (h\<lparr>h_cache := c\<rparr>) r)"
  using assms by (simp add: serve_local_def blocked_def lookup_def Let_def)

lemma query_context_frame [simp]:
  "query_context env (h\<lparr>h_cache := c\<rparr>) io = query_context env h io"
  by (simp add: query_context_def)

lemma edns_step_frame [simp]: "edns_step env (h\<lparr>h_cache := c\<rparr>) m = edns_step env h m"
  by (simp add: edns_step_def Let_def)

lemma prepare_frame [simp]:
  "prepareUpstreamQuery env rand (h\<lparr>h_cache := c\<rparr>) r = prepareUpstreamQuery env rand h r"
  by (simp add: prepareUpstreamQuery_def Let_def)

text \<open>
  A response that may be handed to a client that asked for a name: no blocked alias, and no private
  address unless the name may have one.
\<close>

definition clean :: "('w, 'c, 'e, 're) handler_env \<Rightarrow> config \<Rightarrow> 're engine \<Rightarrow> string \<Rightarrow> msg \<Rightarrow> bool" where
  "clean env cfg eng qname m \<longleftrightarrow>
     (CNAMEUncloaking (Blocking cfg) \<longrightarrow> blocked_alias env eng (mAnswer m) = None) \<and>
     (DNSRebindingProtection (OpSec cfg) \<longrightarrow>
        \<not> FilterDNSRebinding (he_lower env) (Some m) qname (AllowedLocalDomains (OpSec cfg)))"

abbreviation clean_now :: "('w, 'c, 'e, 're) handler_env \<Rightarrow> 're handler \<Rightarrow> string \<Rightarrow> msg \<Rightarrow> bool" where
  "clean_now env h \<equiv> clean env (h_cfg h) (h_filter h)"

lemma FilterDNSRebinding_answers:
  "mAnswer m = mAnswer m' \<Longrightarrow> FilterDNSRebinding ul (Some m) d ps = FilterDNSRebinding ul (Some m') d ps"
  by (simp add: FilterDNSRebinding_def)

lemma clean_answers: "mAnswer m = mAnswer m' \<Longrightarrow> clean env cfg eng d m = clean env cfg eng d m'"
  using FilterDNSRebinding_answers [of m m'] by (simp add: clean_def)

text \<open>Replacing TTLs keeps a response clean.\<close>

lemma blocked_alias_ttl [simp]: "blocked_alias env eng (map (update_ttl ttl) rrs) = blocked_alias env eng rrs"
proof (induction rrs)
  case (Cons rr rrs)
  then show ?case by (cases rr) (simp_all add: update_ttl_def Let_def)
qed simp

lemma private_answer_ttl [simp]: "private_answer (update_ttl ttl rr) = private_answer rr"
  by (cases rr) (simp_all add: update_ttl_def Let_def)

lemma clean_serve_copy:
  "clean env cfg eng d (serve_copy lib i ttl m) = clean env cfg eng d (Copy lib m)"
proof -
  have "FilterDNSRebinding ul (Some (serve_copy lib i ttl m)) d ps = FilterDNSRebinding ul (Some (Copy lib m)) d ps" for ul ps
    by (simp add: FilterDNSRebinding_def list_ex_iff)
  then show ?thesis by (simp add: clean_def)
qed

text \<open>What happens to the response of the forwarder.\<close>

definition final_reply :: "msg \<Rightarrow> msg \<Rightarrow> msg" where
  "final_reply r resp = (restore_name r resp)\<lparr>mId := mId r\<rparr>"

lemma restore_name_fields [simp]:
  "mAnswer (restore_name r resp) = mAnswer resp" "mRcode (restore_name r resp) = mRcode resp"
  "mTruncated (restore_name r resp) = mTruncated resp" "mNs (restore_name r resp) = mNs resp"
  "mExtra (restore_name r resp) = mExtra resp"
  by (simp_all add: restore_name_def set_qname_def)

lemma final_reply_fields [simp]:
  "mId (final_reply r resp) = mId r" "mAnswer (final_reply r resp) = mAnswer resp"
  "mRcode (final_reply r resp) = mRcode resp" "mTruncated (final_reply r resp) = mTruncated resp"
  "mNs (final_reply r resp) = mNs resp" "mExtra (final_reply r resp) = mExtra resp"
  by (simp_all add: final_reply_def)

lemma clean_restore_name [simp]: "clean env cfg eng d (restore_name r resp) = clean env cfg eng d resp"
  by (rule clean_answers) simp

lemma deliver_clean:
  assumes "clean_now env h qname resp"
  shows "deliver env r q qname rtt resp h io =
    (let h = h\<lparr>h_cache := Set (he_lib env) (he_lower env) (now_of env io) (Some r) (Some (final_reply r resp)) (h_cache h)\<rparr>;
         (h, io) = logQuery env ''forwarded'' qname (qType q) rtt h io
     in (h, WriteMsg (final_reply r resp) io))"
proof -
  have "clean_now env h qname (restore_name r resp)" using assms by simp
  then show ?thesis by (auto simp: deliver_def Let_def clean_def final_reply_def split: option.split)
qed

lemma deliver_unclean:
  assumes "\<not> clean_now env h qname resp"
  obtains l t a where "deliver env r q qname rtt resp h io = handleBlocked env r q qname h (emit l t a io)"
    "l \<noteq> LevelDebug \<Longrightarrow>
       t = ''blocked DNS rebinding attack resolving to private/local IP'' \<and> l = LevelWarn"
proof -
  let ?m = "restore_name r resp"
  have unclean: "\<not> clean_now env h qname ?m" using assms by simp
  then have ne: "mAnswer ?m \<noteq> []" by (auto simp: clean_def FilterDNSRebinding_def)
  show ?thesis
  proof (cases "CNAMEUncloaking (Blocking (h_cfg h)) \<and> blocked_alias env (h_filter h) (mAnswer ?m) \<noteq> None")
    case True
    then obtain t where "blocked_alias env (h_filter h) (mAnswer ?m) = Some t" by blast
    then show ?thesis
      using that [of LevelDebug] True ne by (simp add: deliver_def Let_def)
  next
    case False
    then have "DNSRebindingProtection (OpSec (h_cfg h))"
      "FilterDNSRebinding (he_lower env) (Some ?m) qname (AllowedLocalDomains (OpSec (h_cfg h)))"
      using unclean by (auto simp: clean_def)
    then show ?thesis
      using that [of LevelWarn] False ne by (auto simp: deliver_def Let_def)
  qed
qed

section \<open>The upstream query\<close>

text \<open>No client subnet in any OPT record; the fields that preparing a query must not change.\<close>

definition no_ecs :: "msg \<Rightarrow> bool" where
  "no_ecs m \<longleftrightarrow>
     list_all (\<lambda>rr. is_opt rr \<longrightarrow> list_all (\<lambda>x. option_code x \<noteq> EDNS0SUBNET) (rr_options rr)) (mExtra m)"

definition same_frame :: "msg \<Rightarrow> msg \<Rightarrow> bool" where
  "same_frame m r \<longleftrightarrow>
     mId m = mId r \<and> mResponse m = mResponse r \<and> mOpcode m = mOpcode r \<and>
     mRecursionDesired m = mRecursionDesired r \<and> mAnswer m = mAnswer r \<and> mNs m = mNs r"

lemma same_frame_intros [simp]:
  "same_frame r r" "same_frame (m\<lparr>mExtra := x\<rparr>) r = same_frame m r" "same_frame (set_options i os m) r = same_frame m r"
  "same_frame (set_qname n m) r = same_frame m r" "same_frame (set_do lib i m) r = same_frame m r"
  by (simp_all add: same_frame_def set_options_def set_qname_def set_do_def)

lemma set_do_question [simp]: "mQuestion (set_do lib i m) = mQuestion m"
  by (simp add: set_do_def)

lemma rr_options_set_header [simp]: "rr_options (set_header h rr) = rr_options rr"
  by (cases rr) simp_all

lemma is_opt_set_header: "hRrtype h = hRrtype (rr_header rr) \<Longrightarrow> is_opt (set_header h rr) = is_opt rr"
  by (cases rr) simp_all

lemma no_ecs_set_options:
  assumes "no_ecs m" "list_all (\<lambda>x. option_code x \<noteq> EDNS0SUBNET) os"
  shows "no_ecs (set_options i os m)"
  unfolding no_ecs_def list_all_iff
proof (intro ballI impI)
  fix rr x assume rr: "rr \<in> set (mExtra (set_options i os m))" "is_opt rr" "x \<in> set (rr_options rr)"
  then have "rr = set_rr_options os (mExtra m ! i) \<or> rr \<in> set (mExtra m)"
    using set_update_subset_insert [of "mExtra m" i] by (auto simp: set_options_def)
  then show "option_code x \<noteq> EDNS0SUBNET"
    using assms rr(2,3) by (auto simp: no_ecs_def list_all_iff)
qed

lemma no_ecs_set_do:
  assumes "no_ecs m" "edns0_ok lib" "i < length (mExtra m)"
  shows "no_ecs (set_do lib i m)"
  unfolding no_ecs_def list_all_iff
proof (intro ballI impI)
  fix rr x assume rr: "rr \<in> set (mExtra (set_do lib i m))" "is_opt rr" "x \<in> set (rr_options rr)"
  have "hRrtype (SetDo lib h) = hRrtype h" for h using assms(2) by (simp add: edns0_ok_def)
  then have same: "is_opt (set_header (SetDo lib (rr_header rr')) rr') = is_opt rr'" for rr'
    by (simp add: is_opt_set_header)
  have "rr = set_header (SetDo lib (rr_header (mExtra m ! i))) (mExtra m ! i) \<or> rr \<in> set (mExtra m)"
    using rr(1) set_update_subset_insert [of "mExtra m" i] by (auto simp: set_do_def)
  then show "option_code x \<noteq> EDNS0SUBNET"
    using assms(1,3) rr(2,3) same by (auto simp: no_ecs_def list_all_iff)
qed

lemma only_opt:
  assumes "length (filter P xs) \<le> 1" "i < length xs" "j < length xs" "P (xs ! i)" "P (xs ! j)"
  shows "i = j"
proof -
  have "card {k. k < length xs \<and> P (xs ! k)} \<le> 1" using assms(1) by (simp add: length_filter_conv_card)
  moreover have "{i, j} \<subseteq> {k. k < length xs \<and> P (xs ! k)}" using assms by auto
  moreover have "finite {k. k < length xs \<and> P (xs ! k)}" by simp
  ultimately show ?thesis
    using card_mono [of "{k. k < length xs \<and> P (xs ! k)}" "{i, j}"] by (cases "i = j") auto
qed

lemma strip_no_ecs:
  assumes "has_opt m i" "length (filter is_opt (mExtra m)) \<le> 1"
  shows "no_ecs (set_options i (strip_ecs (get_options m i)) m)"
  unfolding no_ecs_def list_all_length
proof (intro allI impI)
  let ?m = "set_options i (strip_ecs (get_options m i)) m"
  fix j k assume j: "j < length (mExtra ?m)" "is_opt (mExtra ?m ! j)" "k < length (rr_options (mExtra ?m ! j))"
  have i: "i < length (mExtra m)" "is_opt (mExtra m ! i)" using assms(1) by (auto simp: has_opt_def)
  have "is_opt (mExtra m ! j)" using j(1,2) i by (cases "j = i") (simp_all add: set_options_def)
  then have "j = i" using only_opt [OF assms(2), of j i] j(1) i by simp
  then have "rr_options (mExtra ?m ! j) = strip_ecs (get_options m i)" using i by (simp add: set_options_def)
  then show "option_code (rr_options (mExtra ?m ! j) ! k) \<noteq> EDNS0SUBNET"
    using j(3) nth_mem [of k "strip_ecs (get_options m i)"] by (simp add: strip_ecs_def)
qed

lemma prepare_total:
  assumes "dns_ok (he_lib env)"
  obtains m where "prepareUpstreamQuery env rand h r = Some m"
proof -
  have "\<exists>m. ApplyEDNS0Padding (he_lib env) req b = Some m" for req b
    using padding_result [OF dns_okD(4,5) [OF assms]] by metis
  then have "\<exists>m. prepareUpstreamQuery env rand h r = Some m"
    by (cases "EDNS0Padding (OpSec (h_cfg h))") (simp_all add: prepareUpstreamQuery_def Let_def)
  then show ?thesis using that by blast
qed

lemma edns_step_result:
  assumes "edns0_ok (he_lib env)" "length (filter is_opt (mExtra req)) \<le> 1"
  shows "no_ecs (edns_step env h req) \<and> same_frame (edns_step env h req) req \<and>
    mQuestion (edns_step env h req) = mQuestion req"
proof (cases "IsEdns0 (he_lib env) req")
  case (Some i)
  have opt: "has_opt req i" by (rule IsEdns0_Some [OF assms(1) Some])
  have "no_ecs (set_options i (strip_ecs (get_options req i)) req)" by (rule strip_no_ecs [OF opt assms(2)])
  then show ?thesis
    using Some no_ecs_set_do [OF _ assms(1)] opt by (simp add: edns_step_def Let_def has_opt_def)
next
  case None
  have "\<not> list_ex is_opt (mExtra req)" by (rule IsEdns0_None [OF assms(1) None])
  then have none: "no_ecs req" by (auto simp: no_ecs_def list_all_iff list_ex_iff)
  obtain hd' where "SetEdns0 (he_lib env) req 1232 (DNSSEC (Server (h_cfg h))) =
      req\<lparr>mExtra := mExtra req @ [RR_OPT hd' []]\<rparr>"
    by (rule SetEdns0_extra [OF assms(1)])
  then show ?thesis using None none by (simp add: edns_step_def no_ecs_def Let_def)
qed

lemma padding_private:
  assumes "edns0_ok lib" "len_ok lib" "no_ecs req"
  shows "\<exists>m. ApplyEDNS0Padding lib req b = Some m \<and> no_ecs m \<and> same_frame m req \<and>
    mQuestion m = mQuestion req \<and> int (WireLen lib m) mod (if b \<le> 0 then 128 else b) = 0"
proof -
  obtain m0 i pad m where m: "ApplyEDNS0Padding lib req b = Some m"
    "m = set_options i (remove_padding (get_options m0 i) @ [EDNS0_PADDING pad]) m0"
    "int (WireLen lib m) mod (if b \<le> 0 then 128 else b) = 0" "has_opt m0 i"
    and m0: "m0 = req \<or> (\<exists>h. m0 = req\<lparr>mExtra := mExtra req @ [RR_OPT h []]\<rparr>)"
    by (rule padding_result [OF assms(1,2), of req b], rule that, assumption+) blast
  have clean: "no_ecs m0" "same_frame m0 req" "mQuestion m0 = mQuestion req"
    using assms(3) m0 by (auto simp: no_ecs_def)
  have "list_all (\<lambda>x. option_code x \<noteq> EDNS0SUBNET) (get_options m0 i)"
    using clean(1) m(4) by (auto simp: no_ecs_def list_all_iff has_opt_def get_options_def)
  then have "no_ecs m"
    unfolding m(2) using clean(1)
    by (intro no_ecs_set_options) (auto simp: remove_padding_def list_all_iff dns_consts)
  with m(1-3) clean show ?thesis by simp
qed

lemma prepare_result:
  assumes "dns_ok (he_lib env)" "mQuestion r \<noteq> []" "length (filter is_opt (mExtra r)) \<le> 1"
  obtains m where "prepareUpstreamQuery env rand h r = Some m" "no_ecs m" "same_frame m r"
    "mQuestion m = (if DNS0x20 (OpSec (h_cfg h))
       then mQuestion (set_qname (Randomize0x20 rand (qName (hd (mQuestion r)))) r) else mQuestion r)"
    "EDNS0Padding (OpSec (h_cfg h)) \<Longrightarrow> int (WireLen (he_lib env) m) mod
       (if PaddingBlockSize (OpSec (h_cfg h)) \<le> 0 then 128 else PaddingBlockSize (OpSec (h_cfg h))) = 0"
proof -
  note ok = dns_okD [OF assms(1)]
  define req where "req = (if DNS0x20 (OpSec (h_cfg h))
    then set_qname (Randomize0x20 rand (qName (hd (mQuestion r)))) r else r)"
  have prep: "prepareUpstreamQuery env rand h r =
      (if EDNS0Padding (OpSec (h_cfg h))
       then ApplyEDNS0Padding (he_lib env) (edns_step env h req) (PaddingBlockSize (OpSec (h_cfg h)))
       else Some (edns_step env h req))"
    using assms(1,2) by (simp add: prepareUpstreamQuery_def Let_def req_def)
  have "mExtra req = mExtra r" by (simp add: req_def set_qname_def)
  then have step: "no_ecs (edns_step env h req)" "same_frame (edns_step env h req) req"
      "mQuestion (edns_step env h req) = mQuestion req"
    using edns_step_result [OF ok(4), of req h] assms(3) by auto
  have req: "same_frame req r" by (simp add: req_def)
  have trans: "same_frame a c" if "same_frame a b" "same_frame b c" for a b c
    using that by (simp add: same_frame_def)
  have question: "mQuestion req = (if DNS0x20 (OpSec (h_cfg h))
      then mQuestion (set_qname (Randomize0x20 rand (qName (hd (mQuestion r)))) r) else mQuestion r)"
    by (simp add: req_def)
  show ?thesis
  proof (cases "EDNS0Padding (OpSec (h_cfg h))")
    case True
    with padding_private [OF ok(4,5) step(1), of "PaddingBlockSize (OpSec (h_cfg h))"] obtain m where
      "prepareUpstreamQuery env rand h r = Some m" "no_ecs m" "same_frame m (edns_step env h req)"
      "mQuestion m = mQuestion (edns_step env h req)"
      "int (WireLen (he_lib env) m) mod
        (if PaddingBlockSize (OpSec (h_cfg h)) \<le> 0 then 128 else PaddingBlockSize (OpSec (h_cfg h))) = 0"
      unfolding prep by auto
    with that [of m] step req question trans show ?thesis by metis
  next
    case False
    with that [of "edns_step env h req"] prep step req question trans show ?thesis by metis
  qed
qed

text \<open>
  The additional section of an upstream query, exactly: the records that are not OPT stay, the OPT record
  loses the client subnet and, with padding on, its old padding, gets the new padding and, with DNSSEC on, the DO
  bit; without an OPT record one is added if DNSSEC or padding asks for it.
\<close>

definition private_rr :: "dnslib \<Rightarrow> bool \<Rightarrow> bool \<Rightarrow> u8 list \<Rightarrow> rr \<Rightarrow> rr" where
  "private_rr lib dnssec padding p rr =
     (if is_opt rr then
        (let kept = filter (\<lambda>x. option_code x \<noteq> EDNS0SUBNET \<and> \<not> (padding \<and> option_code x = EDNS0PADDING)) (rr_options rr);
             rr' = set_rr_options (kept @ (if padding then [EDNS0_PADDING p] else [])) rr
         in if dnssec then set_header (SetDo lib (rr_header rr)) rr' else rr')
      else rr)"

definition private_extra :: "dnslib \<Rightarrow> bool \<Rightarrow> bool \<Rightarrow> u8 list \<Rightarrow> rr_hdr \<Rightarrow> rr list \<Rightarrow> rr list" where
  "private_extra lib dnssec padding p new rrs =
     (if list_ex is_opt rrs then map (private_rr lib dnssec padding p) rrs
      else if dnssec \<or> padding then rrs @ [RR_OPT new (if padding then [EDNS0_PADDING p] else [])]
      else rrs)"

lemma update_only_opt:
  assumes "length (filter is_opt xs) \<le> 1" "i < length xs" "is_opt (xs ! i)"
  shows "xs[i := f (xs ! i)] = map (\<lambda>rr. if is_opt rr then f rr else rr) xs"
proof (rule nth_equalityI)
  fix j assume j: "j < length (xs[i := f (xs ! i)])"
  then have other: "j \<noteq> i \<Longrightarrow> \<not> is_opt (xs ! j)"
    using only_opt [OF assms(1,2) _ assms(3), of j] by force
  show "xs[i := f (xs ! i)] ! j = map (\<lambda>rr. if is_opt rr then f rr else rr) xs ! j"
    using j assms(3) other by (cases "j = i") simp_all
qed simp

lemma filter_map_opt: "(\<And>rr. is_opt (g rr) = is_opt rr) \<Longrightarrow> length (filter is_opt (map g xs)) = length (filter is_opt xs)"
  by (simp add: filter_map comp_def)

lemma set_header_options: "set_rr_options os (set_header h rr) = set_header h (set_rr_options os rr)"
  by (cases rr) simp_all

lemma rr_header_set_options [simp]: "rr_header (set_rr_options os rr) = rr_header rr"
  by (cases rr) simp_all

lemma is_opt_SetDo:
  "edns0_ok lib \<Longrightarrow> is_opt (set_header (SetDo lib (rr_header rr)) rr') = is_opt rr'" if "rr_header rr' = rr_header rr"
  using that by (intro is_opt_set_header) (simp add: edns0_ok_def)

text \<open>The two steps that touch the additional section.\<close>

lemma edns_step_extra:
  assumes "edns0_ok (he_lib env)" "length (filter is_opt (mExtra req)) \<le> 1" "list_ex is_opt (mExtra req)"
  shows "edns_step env h req = req\<lparr>mExtra := map (private_rr (he_lib env) (DNSSEC (Server (h_cfg h))) False []) (mExtra req)\<rparr>"
proof -
  obtain i where i: "IsEdns0 (he_lib env) req = Some i"
    using IsEdns0_None [OF assms(1)] assms(3) by fastforce
  then have opt: "i < length (mExtra req)" "is_opt (mExtra req ! i)"
    using IsEdns0_Some [OF assms(1)] by (auto simp: has_opt_def)
  let ?f = "private_rr (he_lib env) (DNSSEC (Server (h_cfg h))) False []"
  have "edns_step env h req = req\<lparr>mExtra := (mExtra req)[i := ?f (mExtra req ! i)]\<rparr>"
    using opt by (simp add: edns_step_def i Let_def set_options_def set_do_def get_options_def strip_ecs_def private_rr_def)
  also have "(mExtra req)[i := ?f (mExtra req ! i)] = map ?f (mExtra req)"
    unfolding update_only_opt [OF assms(2) opt] by (rule map_cong) (simp_all add: private_rr_def)
  finally show ?thesis .
qed

lemma edns_step_added:
  assumes "edns0_ok (he_lib env)" "\<not> list_ex is_opt (mExtra req)"
  shows "edns_step env h req =
    (if DNSSEC (Server (h_cfg h)) \<or> EDNS0Padding (OpSec (h_cfg h))
     then SetEdns0 (he_lib env) req 1232 (DNSSEC (Server (h_cfg h))) else req)"
proof -
  have "IsEdns0 (he_lib env) req = None"
    using IsEdns0_Some [OF assms(1), of req] assms(2) by (cases "IsEdns0 (he_lib env) req") (auto simp: has_opt_def list_ex_iff)
  then show ?thesis by (simp add: edns_step_def Let_def)
qed

lemma padding_extra:
  assumes "edns0_ok lib" "len_ok lib" "length (filter is_opt (mExtra req)) \<le> 1" "list_ex is_opt (mExtra req)"
  obtains p where "ApplyEDNS0Padding lib req b = Some (req\<lparr>mExtra :=
      map (\<lambda>rr. if is_opt rr then set_rr_options (remove_padding (rr_options rr) @ [EDNS0_PADDING p]) rr else rr) (mExtra req)\<rparr>)"
proof -
  obtain m0 i p m where m: "ApplyEDNS0Padding lib req b = Some m"
    "m = set_options i (remove_padding (get_options m0 i) @ [EDNS0_PADDING p]) m0" "has_opt m0 i"
    and m0: "m0 = req \<and> IsEdns0 lib req = Some i \<or>
      IsEdns0 lib req = None \<and> i = length (mExtra req) \<and> get_options m0 i = [] \<and>
      (\<exists>h. m0 = req\<lparr>mExtra := mExtra req @ [RR_OPT h []]\<rparr>)"
    by (rule padding_result [OF assms(1,2), of req b])
  have "IsEdns0 lib req \<noteq> None" using IsEdns0_None [OF assms(1)] assms(4) by blast
  with m(3) m0 have i: "m0 = req" "i < length (mExtra req)" "is_opt (mExtra req ! i)" by (auto simp: has_opt_def)
  show ?thesis
    using that m(1) unfolding m(2) i(1) set_options_def get_options_def
      update_only_opt [OF assms(3) i(2,3), of "\<lambda>rr. set_rr_options (remove_padding (rr_options rr) @ [EDNS0_PADDING p]) rr"]
    by blast
qed

lemma private_rr_padded:
  assumes "edns0_ok lib"
  shows "(\<lambda>rr. if is_opt rr then set_rr_options (remove_padding (rr_options rr) @ [EDNS0_PADDING p]) rr else rr)
      (private_rr lib dnssec False [] rr) = private_rr lib dnssec True p rr"
  by (simp add: private_rr_def Let_def is_opt_SetDo [OF _ assms] set_header_options remove_padding_def
      filter_filter conj_commute del: filter_filter) (simp add: conj_commute)

lemma is_opt_private_rr: "edns0_ok lib \<Longrightarrow> is_opt (private_rr lib d b p rr) = is_opt rr"
  by (simp add: private_rr_def Let_def is_opt_SetDo)

lemma prepare_extra:
  assumes "dns_ok (he_lib env)" "length (filter is_opt (mExtra r)) \<le> 1" "prepareUpstreamQuery env rand h r = Some m"
  shows "\<exists>qs new p. m = r\<lparr>mQuestion := qs, mExtra := private_extra (he_lib env) (DNSSEC (Server (h_cfg h)))
      (EDNS0Padding (OpSec (h_cfg h))) p new (mExtra r)\<rparr> \<and>
    mExtra (SetEdns0 (he_lib env) (r\<lparr>mQuestion := qs\<rparr>) 1232 (DNSSEC (Server (h_cfg h)))) = mExtra r @ [RR_OPT new []]"
proof -
  note ok = dns_okD [OF assms(1)]
  let ?lib = "he_lib env" and ?dnssec = "DNSSEC (Server (h_cfg h))" and ?pad = "EDNS0Padding (OpSec (h_cfg h))"
  define qs where "qs = (if DNS0x20 (OpSec (h_cfg h)) \<and> length (mQuestion r) > 0
    then mQuestion (set_qname (Randomize0x20 rand (qName (hd (mQuestion r)))) r) else mQuestion r)"
  define req where "req = r\<lparr>mQuestion := qs\<rparr>"
  have prep: "prepareUpstreamQuery env rand h r =
      (if ?pad then ApplyEDNS0Padding ?lib (edns_step env h req) (PaddingBlockSize (OpSec (h_cfg h)))
       else Some (edns_step env h req))"
    using assms(1) by (simp add: prepareUpstreamQuery_def Let_def req_def qs_def set_qname_def)
  obtain new where new: "hRrtype new = TypeOPT" "SetEdns0 ?lib req 1232 ?dnssec = req\<lparr>mExtra := mExtra req @ [RR_OPT new []]\<rparr>"
    by (rule SetEdns0_extra [OF ok(4)])
  have "\<exists>p. m = req\<lparr>mExtra := private_extra ?lib ?dnssec ?pad p new (mExtra r)\<rparr>"
  proof (cases "list_ex is_opt (mExtra r)")
    case True
    have step: "edns_step env h req = req\<lparr>mExtra := map (private_rr ?lib ?dnssec False []) (mExtra r)\<rparr>"
      using edns_step_extra [OF ok(4), of req h] assms(2) True by (simp add: req_def)
    show ?thesis
    proof (cases ?pad)
      case True
      let ?req = "req\<lparr>mExtra := map (private_rr ?lib ?dnssec False []) (mExtra r)\<rparr>"
      have "length (filter is_opt (mExtra ?req)) \<le> 1" "list_ex is_opt (mExtra ?req)"
        using assms(2) \<open>list_ex is_opt (mExtra r)\<close> filter_map_opt [of "private_rr ?lib ?dnssec False []", OF is_opt_private_rr [OF ok(4)]]
        by (simp_all add: list_ex_iff is_opt_private_rr [OF ok(4)])
      from padding_extra [OF ok(4,5) this, of "PaddingBlockSize (OpSec (h_cfg h))"] obtain p where
        "ApplyEDNS0Padding ?lib ?req (PaddingBlockSize (OpSec (h_cfg h))) = Some (?req\<lparr>mExtra :=
          map (\<lambda>rr. if is_opt rr then set_rr_options (remove_padding (rr_options rr) @ [EDNS0_PADDING p]) rr else rr) (mExtra ?req)\<rparr>)"
        by blast
      then have "m = req\<lparr>mExtra := map (private_rr ?lib ?dnssec True p) (mExtra r)\<rparr>"
        using assms(3) True unfolding prep step by (simp add: comp_def private_rr_padded [OF ok(4)])
      then show ?thesis using True \<open>list_ex is_opt (mExtra r)\<close> by (auto simp: private_extra_def)
    next
      case False
      then show ?thesis
        using assms(3) \<open>list_ex is_opt (mExtra r)\<close> unfolding prep step
        by (auto simp: private_extra_def private_rr_def intro!: exI [of _ "[]"])
    qed
  next
    case False
    then have step: "edns_step env h req = (if ?dnssec \<or> ?pad then req\<lparr>mExtra := mExtra r @ [RR_OPT new []]\<rparr> else req)"
      using edns_step_added [OF ok(4), of req h] new(2) by (simp add: req_def)
    have none: "filter is_opt (mExtra r) = []" using False by (auto simp: filter_empty_conv list_ex_iff)
    have id: "map (\<lambda>rr. if is_opt rr then f rr else rr) (mExtra r) = mExtra r" for f
      using False by (intro map_idI) (auto simp: list_ex_iff)
    show ?thesis
    proof (cases ?pad)
      case True
      let ?req = "req\<lparr>mExtra := mExtra r @ [RR_OPT new []]\<rparr>"
      have "length (filter is_opt (mExtra ?req)) \<le> 1" "list_ex is_opt (mExtra ?req)" using none new(1) by simp_all
      from padding_extra [OF ok(4,5) this, of "PaddingBlockSize (OpSec (h_cfg h))"] obtain p where
        "ApplyEDNS0Padding ?lib ?req (PaddingBlockSize (OpSec (h_cfg h))) = Some (?req\<lparr>mExtra :=
          map (\<lambda>rr. if is_opt rr then set_rr_options (remove_padding (rr_options rr) @ [EDNS0_PADDING p]) rr else rr) (mExtra ?req)\<rparr>)"
        by blast
      then have "m = req\<lparr>mExtra := mExtra r @ [RR_OPT new [EDNS0_PADDING p]]\<rparr>"
        using assms(3) True new(1) unfolding prep step by (simp add: id remove_padding_def)
      then show ?thesis using True False by (auto simp: private_extra_def)
    next
      case no_pad: False
      then show ?thesis using assms(3) False unfolding prep step by (auto simp: private_extra_def req_def)
    qed
  qed
  then obtain p where "m = req\<lparr>mExtra := private_extra ?lib ?dnssec ?pad p new (mExtra r)\<rparr>" by blast
  then show ?thesis using new(2) by (intro exI [of _ qs] exI [of _ new] exI [of _ p]) (simp add: req_def)
qed

section \<open>The invariant\<close>

text \<open>
  A handler is well formed if its cache is, its pool is not empty, and every cached response is one
  that could be handed to whoever asks for the entry's name under one of the rule sets \<open>es\<close>, those that
  have been in force so far; the current one is among them.
\<close>

definition cache_clean :: "('w, 'c, 'e, 're) handler_env \<Rightarrow> 're engine set \<Rightarrow> 're handler \<Rightarrow> bool" where
  "cache_clean env es h \<longleftrightarrow>
     (\<forall>k e. cache_holds (h_cache h) k e \<longrightarrow> (\<exists>eng \<in> es. clean env (h_cfg h) eng (ck_name k) (ce_msg e)))"

definition handler_inv :: "('w, 'c, 'e, 're) handler_env \<Rightarrow> 're engine set \<Rightarrow> 're handler \<Rightarrow> bool" where
  "handler_inv env es h \<longleftrightarrow>
     cache_inv (h_cache h) \<and> cache_clean env es h \<and> h_filter h \<in> es \<and>
     fw_resolvers (h_forwarder h) \<noteq> [] \<and> length (fw_resolvers (h_forwarder h)) < 2 ^ 64"

text \<open>What a query leaves as it is.\<close>

definition same_setup :: "'re handler \<Rightarrow> 're handler \<Rightarrow> bool" where
  "same_setup h' h \<longleftrightarrow>
     h_cfg h' = h_cfg h \<and> h_filter h' = h_filter h \<and> h_zeroIPv4 h' = h_zeroIPv4 h \<and> h_zeroIPv6 h' = h_zeroIPv6 h \<and>
     map erase (fw_resolvers (h_forwarder h')) = map erase (fw_resolvers (h_forwarder h)) \<and>
     fw_strategy (h_forwarder h') = fw_strategy (h_forwarder h) \<and> fw_timeout (h_forwarder h') = fw_timeout (h_forwarder h)"

lemma same_setup_refl [simp]: "same_setup h h"
  by (simp add: same_setup_def)

lemma same_setup_trans: "same_setup h1 h2 \<Longrightarrow> same_setup h2 h3 \<Longrightarrow> same_setup h1 h3"
  by (simp add: same_setup_def)

lemma same_setup_steps [simp]:
  "same_setup (h\<lparr>h_cache := c\<rparr>) h"
  "same_setup (fst (logQuery env st d t rtt h io)) h"
  "same_setup (fst (handleBlocked env r q d h io)) h"
  by (simp_all add: same_setup_def)

lemma same_setup_length:
  "same_setup h' h \<Longrightarrow> length (fw_resolvers (h_forwarder h')) = length (fw_resolvers (h_forwarder h))"
  unfolding same_setup_def by (metis length_map)

lemma same_setup_simps: "same_setup h' h \<Longrightarrow> h_cfg h' = h_cfg h \<and> h_filter h' = h_filter h"
  by (simp add: same_setup_def)

lemma same_setup_sinkhole: "same_setup h' h \<Longrightarrow> sinkhole_reply env h' r q = sinkhole_reply env h r q"
  by (simp add: same_setup_def sinkhole_reply_def Let_def)

lemma handler_inv_cong:
  assumes "same_setup h' h" "h_cache h' = h_cache h"
  shows "handler_inv env es h' = handler_inv env es h"
  unfolding handler_inv_def cache_clean_def length_greater_0_conv [symmetric]
  by (simp add: same_setup_simps [OF assms(1)] same_setup_length [OF assms(1)] assms(2))

lemma handler_inv_steps [simp]:
  "handler_inv env es (fst (logQuery env' st d t rtt h io)) = handler_inv env es h"
  "handler_inv env es (fst (handleBlocked env' r q d h io)) = handler_inv env es h"
  by (rule handler_inv_cong; simp)+

lemma handler_inv_lookup:
  assumes "handler_inv env es h"
  shows "handler_inv env es (h\<lparr>h_cache := snd (lookup env r h io)\<rparr>)"
proof -
  have inv: "cache_inv (h_cache h)" "cache_clean env es h" using assms by (simp_all add: handler_inv_def)
  then have ok: "cache_ok (minTTL (h_cache h)) (maxTTL (h_cache h)) (h_cache h)" by (simp add: cache_ok_def)
  note all = responses.holds_all(1) [OF ok, of "\<lambda>k e. \<exists>eng \<in> es. clean env (h_cfg h) eng (ck_name k) (ce_msg e)"
      "he_lib env" "he_lower env" "now_of env io" r]
  have "cache_clean env es (h\<lparr>h_cache := snd (lookup env r h io)\<rparr>)"
    using all inv(2) unfolding cache_clean_def lookup_def
    by simp
  then show ?thesis using assms Get_inv [OF inv(1)] by (simp add: handler_inv_def lookup_def)
qed

lemma handler_inv_store:
  assumes "handler_inv env es h" "dns_ok (he_lib env)" "eng \<in> es"
    "clean env (h_cfg h) eng (qname_of env r) m"
  shows "handler_inv env es (h\<lparr>h_cache := Set (he_lib env) (he_lower env) now (Some r) (Some m) (h_cache h)\<rparr>)"
proof -
  have inv: "cache_inv (h_cache h)" "cache_clean env es h" using assms(1) by (simp_all add: handler_inv_def)
  then have ok: "cache_ok (minTTL (h_cache h)) (maxTTL (h_cache h)) (h_cache h)" by (simp add: cache_ok_def)
  have made: "\<exists>eng \<in> es. clean env (h_cfg h) eng (ck_name k) (ce_msg e)"
    if "query_key (he_lib env) (he_lower env) r = Some k"
      "cache_made (he_lib env) (minTTL (h_cache h)) (maxTTL (h_cache h)) now r m e" for k e
    using that assms(2-4) by (auto simp: query_key_def cache_made_def makeKey_def split: list.splits)
  note all = responses.holds_all(2) [OF ok, of "\<lambda>k e. \<exists>eng \<in> es. clean env (h_cfg h) eng (ck_name k) (ce_msg e)"
      "he_lib env" "he_lower env" r now m]
  have "cache_clean env es (h\<lparr>h_cache := Set (he_lib env) (he_lower env) now (Some r) (Some m) (h_cache h)\<rparr>)"
    using all inv(2) made unfolding cache_clean_def by simp
  then show ?thesis using assms(1) Set_inv [OF inv(1)] by (simp add: handler_inv_def)
qed

text \<open>Loading other rules adds a rule set, and a reply that was fine with fewer rule sets still is.\<close>

lemma handler_inv_reload:
  assumes "handler_inv env es h"
  shows "handler_inv env (insert eng es) (h\<lparr>h_filter := eng\<rparr>)"
  using assms by (auto simp: handler_inv_def cache_clean_def)

lemma handler_inv_mono: "handler_inv env es h \<Longrightarrow> es \<subseteq> es' \<Longrightarrow> handler_inv env es' h"
  by (fastforce simp: handler_inv_def cache_clean_def)

text \<open>The start.\<close>

lemma NewHandler_fields [simp]:
  "h_cfg (NewHandler cfg e f c) = cfg" "h_filter (NewHandler cfg e f c) = e"
  "h_forwarder (NewHandler cfg e f c) = f" "h_cache (NewHandler cfg e f c) = c"
  by (simp_all add: NewHandler_def Let_def)

lemma NewHandler_inv:
  assumes "fw_resolvers f \<noteq> []" "length (fw_resolvers f) < 2 ^ 64"
  shows "handler_inv env {e} (NewHandler cfg e f (NewCache kc))"
proof -
  have "\<not> cache_holds (NewCache kc) k en" for k en
    by (simp add: cache_holds_def lru_list_def NewCache_def Let_def)
  then show ?thesis using assms by (simp add: handler_inv_def cache_clean_def NewCache_inv)
qed

definition example_henv :: "string set \<Rightarrow> (string list, string, string, unit) handler_env" where
  "example_henv up = \<lparr>he_net = example_net up, he_engine = example_env, he_type_name = (\<lambda>t. ''A'')\<rparr>"

section \<open>The answer to a query\<close>

definition good_reply :: "('w, 'c, 'e, 're) handler_env \<Rightarrow> 're engine set \<Rightarrow> 're handler \<Rightarrow> msg \<Rightarrow> msg \<Rightarrow> bool" where
  "good_reply env es h r reply \<longleftrightarrow>
     mId reply = mId r \<and>
     (reply = sinkhole_reply env h r (hd (mQuestion r)) \<or> reply_to r RcodeServerFailure reply \<or>
      (\<exists>eng \<in> es. clean env (h_cfg h) eng (qname_of env r) reply))"

definition answered ::
  "('w, 'c, 'e, 're) handler_env \<Rightarrow> 're engine set \<Rightarrow> msg \<Rightarrow>
     're handler \<Rightarrow> ('w, 'e) io \<Rightarrow> 're handler \<Rightarrow> ('w, 'e) io \<Rightarrow> bool" where
  "answered env es r h io h' io' \<longleftrightarrow>
     (\<exists>reply. io_written io' = io_written io @ [reply] \<and> good_reply env es h r reply) \<and>
     handler_inv env es h' \<and> same_setup h' h"

lemma sinkhole_id: "dns_ok (he_lib env) \<Longrightarrow> mId (sinkhole_reply env h r q) = mId r"
  using dns_okD(3) by (simp add: sinkhole_reply_def Let_def reply_ok_def reply_to_def)

lemma handleBlocked_answered:
  assumes "dns_ok (he_lib env)" "handler_inv env es h" "io_written io' = io_written io"
  shows "answered env es r h io (fst (handleBlocked env r (hd (mQuestion r)) d h io'))
    (snd (handleBlocked env r (hd (mQuestion r)) d h io'))"
  unfolding answered_def
  using assms sinkhole_id [OF assms(1)] by (auto simp: good_reply_def)

lemma serve_local_cases:
  assumes "dns_ok (he_lib env)" "handler_inv env es h" "mQuestion r \<noteq> []"
  obtains (replied) h' io' where "serve_local env rand (Some r) (h, io) = Some (Replied (h', io'))"
      "answered env es r h io h' io'" "io_world io' = io_world io" "h_forwarder h' = h_forwarder h"
  | (pending) req c where "serve_local env rand (Some r) (h, io) = Some (Pending r req (h\<lparr>h_cache := c\<rparr>, io))"
      "\<not> blocked env h r" "lookup env r h io = (None, c)" "prepareUpstreamQuery env rand h r = Some req"
      "handler_inv env es (h\<lparr>h_cache := c\<rparr>)"
proof (cases "blocked env h r")
  case True
  then show ?thesis
    using replied [of "fst (handleBlocked env r (hd (mQuestion r)) (qname_of env r) h io)"
        "snd (handleBlocked env r (hd (mQuestion r)) (qname_of env r) h io)"]
      serve_local_blocked [OF assms(3) True, of rand io] handleBlocked_answered [OF assms(1,2) refl] by simp
next
  case False
  obtain hit c where get: "lookup env r h io = (hit, c)" by (cases "lookup env r h io")
  have inv: "handler_inv env es (h\<lparr>h_cache := c\<rparr>)" using handler_inv_lookup [OF assms(2), of r io] get by simp
  show ?thesis
  proof (cases hit)
    case None
    obtain req where "prepareUpstreamQuery env rand h r = Some req" by (rule prepare_total [OF assms(1)])
    then show ?thesis
      using pending [of req c] serve_local_miss [OF assms(3) False] get None False inv by simp
  next
    case (Some m)
    let ?s = "logQuery env ''cache_hit'' (qname_of env r) (qType (hd (mQuestion r))) 0 (h\<lparr>h_cache := c\<rparr>) io"
    have ci: "cache_inv (h_cache h)" "cache_clean env es h" using assms(2) by (simp_all add: handler_inv_def)
    have "fst (Get (he_lib env) (he_lower env) (now_of env io) (Some r) (h_cache h)) = Some m"
      using get Some by (simp add: lookup_def)
    from Get_hit [OF ci(1) this] obtain k e where
      e: "query_key (he_lib env) (he_lower env) r = Some k" "cache_holds (h_cache h) k e"
      "cache_served (he_lib env) (now_of env io) r e m" by blast
    have "\<exists>eng \<in> es. clean env (h_cfg h) eng (ck_name k) (ce_msg e)" using ci(2) e(2) by (simp add: cache_clean_def)
    moreover have "ck_name k = qname_of env r"
      using e(1) by (auto simp: query_key_def makeKey_def split: list.splits)
    ultimately have "good_reply env es h r m"
      using e(3) assms(1) by (auto simp: good_reply_def cache_served_def clean_serve_copy)
    moreover have "handler_inv env es (fst ?s)" using inv by simp
    moreover have "same_setup (fst ?s) h" by (rule same_setup_trans [OF same_setup_steps(2,1)])
    ultimately have "answered env es r h io (fst ?s) (WriteMsg m (snd ?s))" by (simp add: answered_def)
    moreover have "serve_local env rand (Some r) (h, io) = Some (Replied (fst ?s, WriteMsg m (snd ?s)))"
      using serve_local_hit [OF assms(3) False] get Some by (simp add: case_prod_beta)
    ultimately show ?thesis using replied [of "fst ?s" "WriteMsg m (snd ?s)"] by simp
  qed
qed

text \<open>The call of the forwarder.  The order is the one in which parallel results arrive.\<close>

definition arrivals :: "nat list \<Rightarrow> 're handler \<Rightarrow> bool" where
  "arrivals order h \<longleftrightarrow> mset order = mset [0..<length (fw_resolvers (h_forwarder h))]"

lemma forward_step_result:
  assumes "handler_inv env es h" "arrivals order h" "dns_ok (he_lib env)"
  obtains resp rtt err f w where
    "forward_step env order req (h, io) = Some ((resp, rtt, err), h\<lparr>h_forwarder := f\<rparr>, io\<lparr>io_world := w\<rparr>)"
    "resp = None \<longleftrightarrow> err \<noteq> None" "same_setup (h\<lparr>h_forwarder := f\<rparr>) h"
    "Forward (he_net env) order (query_context env h io) (h_forwarder h) req (io_world io) = Some ((resp, rtt, err), f, w)"
    "\<And>m. resp = Some m \<Longrightarrow> \<exists>i. answer_of (he_net env) (query_context env h io) (fw_timeout (h_forwarder h)) req
       (fw_resolvers (h_forwarder h)) i m"
proof -
  have "pool_ok order (h_forwarder h)" using assms(1,2) by (simp add: pool_ok_def handler_inv_def arrivals_def)
  from Forward_outcome [OF this dns_okD(2) [OF assms(3)], of "query_context env h io" req "io_world io"] obtain resp rtt err f w where
    fw: "Forward (he_net env) order (query_context env h io) (h_forwarder h) req (io_world io) = Some ((resp, rtt, err), f, w)"
    "resp = None \<longleftrightarrow> err \<noteq> None" "map erase (fw_resolvers f) = map erase (fw_resolvers (h_forwarder h))"
    "fw_strategy f = fw_strategy (h_forwarder h)" "fw_timeout f = fw_timeout (h_forwarder h)"
    "\<forall>m. resp = Some m \<longrightarrow> (\<exists>i. answer_of (he_net env) (query_context env h io) (fw_timeout (h_forwarder h)) req
       (fw_resolvers (h_forwarder h)) i m)"
    by blast
  then show ?thesis using that [of resp rtt err f w] by (simp add: forward_step_def same_setup_def)
qed

lemma same_setup_forwarder_world:
  assumes "handler_inv env es h" "same_setup (h\<lparr>h_forwarder := f\<rparr>) h"
  shows "handler_inv env es (h\<lparr>h_forwarder := f\<rparr>)"
  using assms handler_inv_cong [OF assms(2), of env] by simp

lemma answered_from:
  assumes "answered env es r h1 io1 h' io'" "same_setup h1 h" "io_written io1 = io_written io"
  shows "answered env es r h io h' io'"
  using assms same_setup_trans [OF _ assms(2)] same_setup_simps [OF assms(2)]
    same_setup_sinkhole [OF assms(2), of env]
  by (auto simp: answered_def good_reply_def)

lemma check_casing_result:
  assumes "mQuestion req \<noteq> []"
  shows "check_casing env req resp d h io = Some io \<or>
    (\<exists>a. check_casing env req resp d h io =
       Some (emit LevelDebug ''upstream altered 0x20 case, applying soft fallback'' a io))"
  using assms by (auto simp: check_casing_def)

lemma deliver_answered:
  assumes "dns_ok (he_lib env)" "handler_inv env es h" "io_written io1 = io_written io"
    "deliver env r (hd (mQuestion r)) (qname_of env r) rtt m h io1 = (h', io')"
  shows "answered env es r h io h' io'"
proof (cases "clean_now env h (qname_of env r) m")
  case True
  define h1 where "h1 = h\<lparr>h_cache := Set (he_lib env) (he_lower env) (now_of env io1) (Some r)
    (Some (final_reply r m)) (h_cache h)\<rparr>"
  let ?s = "logQuery env ''forwarded'' (qname_of env r) (qType (hd (mQuestion r))) rtt h1 io1"
  have fin: "clean_now env h (qname_of env r) (final_reply r m)"
    using True by (simp add: clean_answers [of "final_reply r m" m])
  have cur: "h_filter h \<in> es" using assms(2) by (simp add: handler_inv_def)
  have "h' = fst ?s" "io' = WriteMsg (final_reply r m) (snd ?s)"
    using assms(4) deliver_clean [OF True, of r "hd (mQuestion r)" rtt io1] by (simp_all add: h1_def case_prod_beta Let_def)
  moreover have "handler_inv env es (fst ?s)"
    unfolding h1_def using handler_inv_store [OF assms(2,1) cur fin] by simp
  moreover have "same_setup (fst ?s) h"
    by (rule same_setup_trans [OF same_setup_steps(2)]) (simp add: h1_def)
  moreover have "good_reply env es h r (final_reply r m)" using fin cur by (auto simp: good_reply_def)
  ultimately show ?thesis using assms(3) by (simp add: answered_def)
next
  case False
  obtain l t a where "deliver env r (hd (mQuestion r)) (qname_of env r) rtt m h io1 =
      handleBlocked env r (hd (mQuestion r)) (qname_of env r) h (emit l t a io1)"
    by (rule deliver_unclean [OF False])
  then show ?thesis
    using handleBlocked_answered [OF assms(1,2), of "emit l t a io1" io r "qname_of env r"] assms(3,4)
    by (metis emit_frame(2) fst_conv snd_conv)
qed

lemma after_forward_answered:
  assumes "dns_ok (he_lib env)" "handler_inv env es h" "mQuestion req \<noteq> []" "resp = None \<longleftrightarrow> err \<noteq> None"
  obtains h' io' where "after_forward env r req (resp, rtt, err) (h, io) = Some (h', io')"
    "answered env es r h io h' io'"
proof (cases err)
  case (Some e)
  obtain m where m: "SetRcode (he_lib env) new_msg (Some r) RcodeServerFailure = Some m"
    "reply_to r RcodeServerFailure m"
    using dns_okD(3) [OF assms(1)] unfolding reply_ok_def by blast
  then have "good_reply env es h r m" by (simp add: good_reply_def reply_to_def)
  then show ?thesis
    using that Some m assms(2) by (simp add: after_forward_def Let_def answered_def)
next
  case None
  then obtain m where resp: "resp = Some m" using assms(4) by auto
  obtain io1 where io1: "check_casing env req m (qname_of env r) h io = Some io1" "io_written io1 = io_written io"
    using check_casing_result [OF assms(3), of env m "qname_of env r" h io] by (metis emit_frame(2))
  obtain h' io' where d: "deliver env r (hd (mQuestion r)) (qname_of env r) rtt m h io1 = (h', io')"
    by (metis prod.exhaust)
  show ?thesis
    using that deliver_answered [OF assms(1,2) io1(2) d] None resp io1(1) d
    by (simp add: after_forward_def Let_def)
qed

text \<open>The query that is sent for \<open>r\<close>: \<open>r\<close> but for the case of its first name and its additional section.\<close>

definition upstream_form :: "('w, 'c, 'e, 're) handler_env \<Rightarrow> config \<Rightarrow> msg \<Rightarrow> msg \<Rightarrow> bool" where
  "upstream_form env cfg r m \<longleftrightarrow>
     (\<exists>n new p. let q = hd (mQuestion r); qs = q\<lparr>qName := n\<rparr> # tl (mQuestion r);
        dnssec = DNSSEC (Server cfg); padding = EDNS0Padding (OpSec cfg) in
      m = r\<lparr>mQuestion := qs, mExtra := private_extra (he_lib env) dnssec padding p new (mExtra r)\<rparr> \<and>
      map lower_byte n = map lower_byte (qName q) \<and> (DNS0x20 (OpSec cfg) \<or> n = qName q) \<and>
      mExtra (SetEdns0 (he_lib env) (r\<lparr>mQuestion := qs\<rparr>) 1232 dnssec) = mExtra r @ [RR_OPT new []]) \<and>
     no_ecs m \<and>
     (EDNS0Padding (OpSec cfg) \<longrightarrow> int (WireLen (he_lib env) m) mod
        (if PaddingBlockSize (OpSec cfg) \<le> 0 then 128 else PaddingBlockSize (OpSec cfg)) = 0)"

lemma prepared_form:
  assumes "dns_ok (he_lib env)" "mQuestion r \<noteq> []" "length (filter is_opt (mExtra r)) \<le> 1"
    "prepareUpstreamQuery env rand h r = Some m"
  shows "upstream_form env (h_cfg h) r m"
proof -
  obtain q qs where q: "mQuestion r = q # qs" using assms(2) by (cases "mQuestion r") auto
  have m: "no_ecs m" "mQuestion m = (if DNS0x20 (OpSec (h_cfg h))
       then mQuestion (set_qname (Randomize0x20 rand (qName (hd (mQuestion r)))) r) else mQuestion r)"
    "EDNS0Padding (OpSec (h_cfg h)) \<Longrightarrow> int (WireLen (he_lib env) m) mod
       (if PaddingBlockSize (OpSec (h_cfg h)) \<le> 0 then 128 else PaddingBlockSize (OpSec (h_cfg h))) = 0"
    using prepare_result [OF assms(1-3), of rand h] assms(4) by (metis option.inject)+
  define n where "n = (if DNS0x20 (OpSec (h_cfg h)) then Randomize0x20 rand (qName q) else qName q)"
  have qm: "mQuestion m = q\<lparr>qName := n\<rparr> # qs" using m(2) q by (simp add: set_qname_def n_def)
  obtain qs' new p where e: "m = r\<lparr>mQuestion := qs', mExtra := private_extra (he_lib env) (DNSSEC (Server (h_cfg h)))
      (EDNS0Padding (OpSec (h_cfg h))) p new (mExtra r)\<rparr>"
    "mExtra (SetEdns0 (he_lib env) (r\<lparr>mQuestion := qs'\<rparr>) 1232 (DNSSEC (Server (h_cfg h)))) = mExtra r @ [RR_OPT new []]"
    using prepare_extra [OF assms(1,3,4)] by blast
  have qs': "qs' = q\<lparr>qName := n\<rparr> # qs" using qm e(1) by simp
  have names: "map lower_byte n = map lower_byte (qName q)" "DNS0x20 (OpSec (h_cfg h)) \<or> n = qName q"
    by (auto simp: n_def)
  have form: "\<exists>n new p. m = r\<lparr>mQuestion := q\<lparr>qName := n\<rparr> # qs, mExtra := private_extra (he_lib env) (DNSSEC (Server (h_cfg h)))
      (EDNS0Padding (OpSec (h_cfg h))) p new (mExtra r)\<rparr> \<and>
    map lower_byte n = map lower_byte (qName q) \<and> (DNS0x20 (OpSec (h_cfg h)) \<or> n = qName q) \<and>
    mExtra (SetEdns0 (he_lib env) (r\<lparr>mQuestion := q\<lparr>qName := n\<rparr> # qs\<rparr>) 1232 (DNSSEC (Server (h_cfg h)))) =
      mExtra r @ [RR_OPT new []]"
    using e names unfolding qs' by blast
  show ?thesis
    unfolding upstream_form_def Let_def q list.sel using form m(1,3) by blast
qed

lemma prepare_question:
  assumes "dns_ok (he_lib env)" "mQuestion r \<noteq> []" "prepareUpstreamQuery env rand h r = Some req"
  shows "mQuestion req \<noteq> []"
proof -
  have e: "mQuestion (edns_step env h m) = mQuestion m" for m
    using SetEdns0_extra [OF dns_okD(4) [OF assms(1)], of m 1232 "DNSSEC (Server (h_cfg h))"]
    by (fastforce simp: edns_step_def Let_def split: option.split)
  have p: "mQuestion m' = mQuestion m" if "ApplyEDNS0Padding (he_lib env) m b = Some m'" for m m' b
    using padding_result [OF dns_okD(4,5) [OF assms(1)], of m b] that by fastforce
  have q: "mQuestion (set_qname n m) = [] \<longleftrightarrow> mQuestion m = []" for n m
    by (simp add: set_qname_def split: list.split)
  show ?thesis
    using assms(2,3) p
    by (auto simp: prepareUpstreamQuery_def Let_def e q Copy_id [OF assms(1)] split: if_splits)
qed

lemma ServeDNS_answered:
  assumes "dns_ok (he_lib env)" "handler_inv env es h" "arrivals order h" "mQuestion r \<noteq> []"
  obtains h' io' where "ServeDNS env rand order (Some r) (h, io) = Some (h', io')" "answered env es r h io h' io'"
  using assms(1,2,4)
proof (cases rule: serve_local_cases [where rand = rand and io = io])
  case (replied h' io')
  then show ?thesis using that by (simp add: ServeDNS_def)
next
  case (pending req c)
  define h1 where "h1 = h\<lparr>h_cache := c\<rparr>"
  have arr: "arrivals order h1" using assms(3) by (simp add: h1_def arrivals_def)
  obtain resp rtt err f w where fw:
    "forward_step env order req (h1, io) = Some ((resp, rtt, err), h1\<lparr>h_forwarder := f\<rparr>, io\<lparr>io_world := w\<rparr>)"
    "resp = None \<longleftrightarrow> err \<noteq> None" "same_setup (h1\<lparr>h_forwarder := f\<rparr>) h1"
    using forward_step_result [OF _ arr assms(1)] pending(5) unfolding h1_def by metis
  have inv: "handler_inv env es (h1\<lparr>h_forwarder := f\<rparr>)"
    using same_setup_forwarder_world [OF _ fw(3)] pending(5) by (simp add: h1_def)
  obtain h' io' where af: "after_forward env r req (resp, rtt, err) (h1\<lparr>h_forwarder := f\<rparr>, io\<lparr>io_world := w\<rparr>) = Some (h', io')"
    "answered env es r (h1\<lparr>h_forwarder := f\<rparr>) (io\<lparr>io_world := w\<rparr>) h' io'"
    using after_forward_answered [OF assms(1) inv prepare_question [OF assms(1,4) pending(4)] fw(2)] by metis
  have "same_setup (h1\<lparr>h_forwarder := f\<rparr>) h" by (rule same_setup_trans [OF fw(3)]) (simp add: h1_def)
  with answered_from [OF af(2)] have "answered env es r h io h' io'" by simp
  then show ?thesis
    using that pending(1) fw(1) af(1) by (simp add: ServeDNS_def h1_def)
qed

end
