(* ===== verification/Handler_Properties.thy ===== *)
theory Handler_Properties
  imports Handler_Safety
begin

text \<open>
  The properties of the query handler: exactly one reply to every query, which replies a client can get,
  what leaves the machine for an upstream, what the log shows, and what the cache does to a second query.
\<close>

section \<open>The start state and a concrete handler\<close>

definition example_engine :: "unit engine" where
  "example_engine = LoadRules example_env id (NewEngine example_cfg)"

definition example_handler :: "unit handler" where
  "example_handler =
     NewHandler DefaultConfig example_engine (example_fw ''failover'')
       (NewCache example_cache_cfg)"

definition example_io :: "(string list, string) io" where
  "example_io = \<lparr>io_world = [], io_log = [], io_written = []\<rparr>"

lemma example_handler_inv: "handler_inv env {example_engine} example_handler"
  unfolding example_handler_def by (rule NewHandler_inv) (simp_all add: example_fw_def)

lemma example_arrivals: "arrivals [1, 0] example_handler"
  by (simp add: arrivals_def example_handler_def NewHandler_def Let_def example_fw_def upt_rec)

lemma example_henv_ok: "dns_ok (he_lib (example_henv up))"
  by (simp add: example_henv_def example_net_def example_lib_ok)

lemma example_henv_simps [simp]:
  "he_lib (example_henv up) = example_lib" "he_lower (example_henv up) = id" "he_engine (example_henv up) = example_env"
  by (simp_all add: example_henv_def example_net_def)

lemma example_question [simp]:
  "mQuestion (example_query n) = [\<lparr>qName = n, qType = TypeA, qClass = ClassINET\<rparr>]"
  "mId (example_query n) = 7" "mExtra (example_query n) = []"
  by (simp_all add: example_query_def new_msg_def)

section \<open>What a clean response contains\<close>

lemma clean_aliases:
  assumes "clean env cfg eng d m" "CNAMEUncloaking (Blocking cfg)" "RR_CNAME hdr tgt \<in> set (mAnswer m)"
  shows "\<not> IsBlocked (he_engine env) eng (to_lower (he_lower env) (Fqdn (he_lib env) tgt))"
proof -
  have "\<not> IsBlocked (he_engine env) eng (to_lower (he_lower env) (Fqdn (he_lib env) tgt))"
    if "blocked_alias env eng rrs = None" "RR_CNAME hdr tgt \<in> set rrs" for rrs
    using that
  proof (induction rrs)
    case (Cons rr rrs)
    then show ?case by (cases rr) (auto simp: Let_def split: if_splits)
  qed simp
  from this [of "mAnswer m"] show ?thesis using assms by (simp add: clean_def)
qed

lemma clean_addresses:
  assumes "clean env cfg eng d m" "DNSRebindingProtection (OpSec cfg)"
    "\<not> IsAllowedLocalDomain (he_lower env) d (AllowedLocalDomains (OpSec cfg))"
    "RR_A hdr a \<in> set (mAnswer m) \<or> RR_AAAA hdr a \<in> set (mAnswer m)"
  shows "\<not> IsPrivateOrLocalIP a"
proof -
  have "\<not> list_ex private_answer (mAnswer m)"
    using assms by (auto simp: clean_def FilterDNSRebinding_def split: if_splits)
  then show ?thesis using assms(4) by (force simp: list_ex_iff)
qed

section \<open>What is printed in zero-log mode\<close>

definition warnings :: "'e fw_err log_event list \<Rightarrow> bool" where
  "warnings = list_all (\<lambda>e. le_level e = LevelWarn \<and>
     (le_msg e = ''upstream resolution failed'' \<or>
      le_msg e = ''blocked DNS rebinding attack resolving to private/local IP''))"

lemma not_debug: "LevelInfo \<le> lvl \<Longrightarrow> lvl \<le> LevelDebug \<longleftrightarrow> False"
  by (cases lvl) simp_all

lemma zero_log_logQuery:
  assumes "ZeroLog (OpSec (h_cfg h))" "LevelInfo \<le> lvl"
  shows "printed lvl (io_log (snd (logQuery env st d t rtt h io))) = printed lvl (io_log io)"
  using assms by (auto simp: logQuery_def Let_def not_debug)

lemma zero_log_handleBlocked:
  assumes "ZeroLog (OpSec (h_cfg h))" "LevelInfo \<le> lvl"
  shows "printed lvl (io_log (snd (handleBlocked env r q d h io))) = printed lvl (io_log io)"
  using zero_log_logQuery [OF assms] by (simp add: handleBlocked_def case_prod_beta)

lemma zero_log_local:
  assumes "ZeroLog (OpSec (h_cfg h))" "LevelInfo \<le> lvl" "serve_local env rand r0 (h, io) = Some p"
  shows "case p of Replied (h', io') \<Rightarrow> printed lvl (io_log io') = printed lvl (io_log io)
    | Pending r req (h', io') \<Rightarrow> io' = io \<and> h_cfg h' = h_cfg h"
proof (cases r0)
  case None
  then show ?thesis using assms(3) by (auto simp: serve_local_def)
next
  case (Some r)
  consider "mQuestion r = []" | "mQuestion r \<noteq> []" "blocked env h r"
    | m c where "mQuestion r \<noteq> []" "\<not> blocked env h r" "lookup env r h io = (Some m, c)"
    | c where "mQuestion r \<noteq> []" "\<not> blocked env h r" "lookup env r h io = (None, c)"
    by (metis option.exhaust prod.exhaust)
  then show ?thesis
  proof cases
    case 1
    then show ?thesis using assms(3) Some by (auto simp: serve_local_def)
  next
    case 2
    then show ?thesis
      using assms(3) Some serve_local_blocked [OF 2] zero_log_handleBlocked [OF assms(1,2)]
      by (auto simp: case_prod_beta)
  next
    case 3
    have "ZeroLog (OpSec (h_cfg (h\<lparr>h_cache := c\<rparr>)))" using assms(1) by simp
    then show ?thesis
      using assms(3) Some serve_local_hit [OF 3]
      by (auto simp: case_prod_beta zero_log_logQuery [OF _ assms(2)])
  next
    case 4
    then show ?thesis using assms(3) Some serve_local_miss [OF 4] by auto
  qed
qed

lemma zero_log_deliver:
  assumes "ZeroLog (OpSec (h_cfg h))" "LevelInfo \<le> lvl"
  shows "\<exists>evs. printed lvl (io_log (snd (deliver env r q d rtt m h io))) = printed lvl (io_log io) @ evs \<and> warnings evs"
proof (cases "clean_now env h d m")
  case True
  have "ZeroLog (OpSec (h_cfg (h\<lparr>h_cache := c\<rparr>)))" for c using assms(1) by simp
  then show ?thesis
    by (simp add: zero_log_logQuery [OF _ assms(2)] deliver_clean [OF True] Let_def case_prod_beta warnings_def)
next
  case False
  obtain l t a where d: "deliver env r q d rtt m h io = handleBlocked env r q d h (emit l t a io)"
    "l \<noteq> LevelDebug \<Longrightarrow> t = ''blocked DNS rebinding attack resolving to private/local IP'' \<and> l = LevelWarn"
    by (rule deliver_unclean [OF False, of r q rtt io], rule that, assumption) blast
  then show ?thesis
    using not_debug [OF assms(2)]
    by (cases "l = LevelDebug") (auto simp: warnings_def zero_log_handleBlocked [OF assms])
qed

lemma zero_log_after:
  assumes "ZeroLog (OpSec (h_cfg h))" "LevelInfo \<le> lvl" "after_forward env r req res (h, io) = Some (h', io')"
  shows "\<exists>evs. printed lvl (io_log io') = printed lvl (io_log io) @ evs \<and> warnings evs"
proof -
  obtain resp rtt err where res: "res = (resp, rtt, err)" by (cases res)
  show ?thesis
  proof (cases err)
    case (Some e)
    then show ?thesis using assms(3) by (auto simp: res after_forward_def Let_def warnings_def)
  next
    case None
    then obtain m io1 where m: "check_casing env req m (qname_of env r) h io = Some io1"
      "deliver env r (hd (mQuestion r)) (qname_of env r) rtt m h io1 = (h', io')"
      using assms(3) by (auto simp: res after_forward_def Let_def split: option.splits)
    then have "printed lvl (io_log io1) = printed lvl (io_log io)"
      using not_debug [OF assms(2)] by (auto simp: check_casing_def split: if_splits)
    then show ?thesis using zero_log_deliver [OF assms(1,2), of env r] m(2) by (metis snd_conv)
  qed
qed

section \<open>Properties\<close>

text \<open>
  C6. Every well-formed query is answered: with a working library, whatever the upstreams do and in whatever
  order their results arrive, \<^verbatim>\<open>ServeDNS\<close> does not panic, writes exactly one message, which carries the
  ID of the query, and leaves the handler well formed and its setup as it was.
\<close>

theorem every_query_answered:
  assumes "dns_ok (he_lib env)" "handler_inv env es h" "arrivals order h" "mQuestion r \<noteq> []"
  shows "\<exists>h' io' reply. ServeDNS env rand order (Some r) (h, io) = Some (h', io') \<and>
    io_written io' = io_written io @ [reply] \<and> mId reply = mId r \<and> handler_inv env es h' \<and> same_setup h' h"
proof -
  obtain h' io' where "ServeDNS env rand order (Some r) (h, io) = Some (h', io')" "answered env es r h io h' io'"
    by (rule ServeDNS_answered [OF assms])
  then show ?thesis unfolding answered_def good_reply_def by blast
qed

lemma every_query_answered_witness:
  "\<exists>h' io' reply. ServeDNS (example_henv {}) (\<lambda>n. replicate n 0) [1, 0] (Some (example_query ''a.b.''))
      (example_handler, example_io) = Some (h', io') \<and>
    io_written io' = [reply] \<and> mId reply = 7 \<and> same_setup h' example_handler"
  using every_query_answered [OF example_henv_ok example_handler_inv example_arrivals,
      of "example_query ''a.b.''" "{}" "\<lambda>n. replicate n 0" example_io]
  by (auto simp: example_io_def)

text \<open>
  C7. What a client can be told: a reply is the sinkhole answer, or SERVFAIL, or a response in which no alias
  target is blocked (with CNAME uncloaking on) and no address is private unless the name is an allowed
  local one (with rebinding protection on).  This covers responses from the cache as well, since the
  invariant that every call keeps says the same of every cached response.  Blocked means by one of the
  rule sets \<open>es\<close> that have been in force, the current one as long as nothing was reloaded.
\<close>

theorem replies_are_safe:
  assumes "dns_ok (he_lib env)" "handler_inv env es h" "arrivals order h" "mQuestion r \<noteq> []"
    "ServeDNS env rand order (Some r) (h, io) = Some (h', io')"
  shows "\<exists>reply. io_written io' = io_written io @ [reply] \<and>
    (reply = sinkhole_reply env h r (hd (mQuestion r)) \<or> reply_to r RcodeServerFailure reply \<or>
     (CNAMEUncloaking (Blocking (h_cfg h)) \<longrightarrow>
        (\<exists>eng \<in> es. \<forall>hdr tgt. RR_CNAME hdr tgt \<in> set (mAnswer reply) \<longrightarrow>
           \<not> IsBlocked (he_engine env) eng (to_lower (he_lower env) (Fqdn (he_lib env) tgt)))) \<and>
     (DNSRebindingProtection (OpSec (h_cfg h)) \<and>
      \<not> IsAllowedLocalDomain (he_lower env) (qname_of env r) (AllowedLocalDomains (OpSec (h_cfg h))) \<longrightarrow>
        (\<forall>hdr a. RR_A hdr a \<in> set (mAnswer reply) \<or> RR_AAAA hdr a \<in> set (mAnswer reply) \<longrightarrow>
           \<not> IsPrivateOrLocalIP a)))"
proof -
  obtain h1 io1 where "ServeDNS env rand order (Some r) (h, io) = Some (h1, io1)" "answered env es r h io h1 io1"
    by (rule ServeDNS_answered [OF assms(1-4)])
  then obtain reply where "io_written io' = io_written io @ [reply]" "good_reply env es h r reply"
    using assms(5) by (auto simp: answered_def)
  then show ?thesis unfolding good_reply_def using clean_aliases clean_addresses by metis
qed

lemma replies_are_safe_witness:
  "\<exists>h' io' reply. ServeDNS (example_henv {''9.9.9.9:53''}) (\<lambda>n. replicate n 0) [1, 0] (Some (example_query ''a.b.''))
      (example_handler, example_io) = Some (h', io') \<and> io_written io' = [reply]"
proof -
  let ?env = "example_henv {''9.9.9.9:53''}"
  have q: "mQuestion (example_query ''a.b.'') \<noteq> []" by simp
  obtain h' io' where serve: "ServeDNS ?env (\<lambda>n. replicate n 0) [1, 0] (Some (example_query ''a.b.''))
      (example_handler, example_io) = Some (h', io')"
    by (rule ServeDNS_answered [OF example_henv_ok example_handler_inv example_arrivals q])
  from replies_are_safe [OF example_henv_ok example_handler_inv example_arrivals q serve]
  have "\<exists>reply. io_written io' = io_written example_io @ [reply]" by blast
  with serve show ?thesis by (simp add: example_io_def)
qed

text \<open>
  C8. A query for a blocked name never leaves the machine: the network, the cache and the pool are untouched
  and the client gets the sinkhole answer for its own ID and question, NXDOMAIN in that mode, and else
  the configured null address with the configured TTL (300 if it is 0) for A and AAAA queries and no
  data for all others.
\<close>

theorem blocked_query_sinkholed:
  assumes "dns_ok (he_lib env)" "mQuestion r = q # qs"
    "IsBlocked (he_engine env) (h_filter h) (to_lower (he_lower env) (Fqdn (he_lib env) (qName q)))"
  shows "\<exists>h' io' reply rcode. ServeDNS env rand order (Some r) (h, io) = Some (h', io') \<and>
    io_world io' = io_world io \<and> h_cache h' = h_cache h \<and> h_forwarder h' = h_forwarder h \<and>
    io_written io' = io_written io @ [reply] \<and>
    rcode = (if BlockMode (Blocking (h_cfg h)) = ''nxdomain'' then RcodeNameError else RcodeSuccess) \<and>
    reply_to r rcode (reply\<lparr>mAnswer := []\<rparr>) \<and>
    mAnswer reply =
      (let ttl = (if TTL (Blocking (h_cfg h)) = 0 then 300 else TTL (Blocking (h_cfg h)));
           hdr = \<lparr>hName = qName q, hRrtype = qType q, hClass = ClassINET, hTtl = ttl\<rparr>
       in if BlockMode (Blocking (h_cfg h)) = ''nxdomain'' then []
          else if qType q = TypeA then [RR_A hdr (h_zeroIPv4 h)]
          else if qType q = TypeAAAA then [RR_AAAA hdr (h_zeroIPv6 h)]
          else [])"
proof -
  have r: "mQuestion r \<noteq> []" "hd (mQuestion r) = q" using assms(2) by simp_all
  have "blocked env h r" using assms(3) r by (simp add: blocked_def)
  note serve = serve_local_blocked [OF r(1) this, of rand io]
  have rep: "reply_to r RcodeSuccess (SetReply (he_lib env) new_msg r)"
    using dns_okD(3) [OF assms(1)] by (simp add: reply_ok_def)
  have ans: "mAnswer (SetReply (he_lib env) new_msg r) = []" using rep by (simp add: reply_to_def)
  have types: "TypeA \<noteq> TypeAAAA" by (simp add: dns_consts)
  show ?thesis
    using rep ans types
    by (intro exI [of _ "fst (handleBlocked env r q (qname_of env r) h io)"]
        exI [of _ "snd (handleBlocked env r q (qname_of env r) h io)"]
        exI [of _ "sinkhole_reply env h r q"] exI conjI refl)
      (simp_all add: ServeDNS_def serve r(2), auto simp: sinkhole_reply_def sinkhole_hdr_def Let_def reply_to_def)
qed

lemma blocked_query_sinkholed_witness:
  "\<exists>h' io' reply. ServeDNS (example_henv {}) (\<lambda>n. []) [0, 1] (Some (example_query ''bad.evil.com''))
      (example_handler, example_io) = Some (h', io') \<and> io_world io' = [] \<and> io_written io' = [reply] \<and>
    mAnswer reply = [RR_A \<lparr>hName = ''bad.evil.com'', hRrtype = TypeA, hClass = ClassINET, hTtl = 300\<rparr> IPv4zero]"
proof -
  have lower: "to_lower id (Fqdn example_lib ''bad.evil.com'') = ''bad.evil.com.''" by code_simp
  have cfg: "h_cfg example_handler = DefaultConfig"
    "h_filter example_handler = LoadRules example_env id (NewEngine example_cfg)"
    by (simp_all add: example_handler_def NewHandler_def example_engine_def Let_def)
  have ip: "ParseIP ''0.0.0.0'' = Some IPv4zero" by code_simp
  then have zero: "h_zeroIPv4 example_handler = IPv4zero"
    by (simp add: example_handler_def NewHandler_def Let_def DefaultConfig_def)
  have "IsBlocked example_env (LoadRules example_env id (NewEngine example_cfg)) ''bad.evil.com.''"
    using blocked_by_entry [OF _ example_entry, of "NewEngine example_cfg" "''bad.evil.com.''" example_env id]
      example_white by (simp add: example_cfg_def DefaultConfig_def)
  then have blk: "IsBlocked (he_engine (example_henv {})) (h_filter example_handler)
      (to_lower (he_lower (example_henv {})) (Fqdn (he_lib (example_henv {}))
        (qName \<lparr>qName = ''bad.evil.com'', qType = TypeA, qClass = ClassINET\<rparr>)))"
    by (simp add: lower cfg(2))
  have conf: "BlockMode (Blocking (h_cfg example_handler)) = ''zero_ip''" "TTL (Blocking (h_cfg example_handler)) = 300"
    by (simp_all add: cfg DefaultConfig_def)
  from blocked_query_sinkholed [OF example_henv_ok example_question(1) blk, of "\<lambda>n. []" "[0, 1]" example_io]
  show ?thesis
    by (elim exE conjE) (intro exI conjI, assumption, simp_all add: conf zero example_io_def)
qed

text \<open>
  C9. What leaves the machine, field by field.  For a query with at most one OPT record, the query prepared for the
  upstreams is the client's query with two changes: the letters of the first question's name may change case (only with
  0x20 randomisation), and the additional section is \<open>private_extra\<close>: the records that are not OPT are kept, the OPT
  record loses the client-subnet options and keeps its other options in order, has its old padding replaced by
  one new padding option with padding on, and is marked by \<^verbatim>\<open>SetDo\<close> with DNSSEC on; without an OPT record, the one
  that \<^verbatim>\<open>SetEdns0\<close> adds is appended if DNSSEC or padding is on.  No client subnet is left, and with padding on the wire
  length is a multiple of the block size.
\<close>

theorem upstream_query_private:
  assumes "dns_ok (he_lib env)" "mQuestion r = q # qs" "length (filter is_opt (mExtra r)) \<le> 1"
  shows "\<exists>m n new p. prepareUpstreamQuery env rand h r = Some m \<and>
    m = r\<lparr>mQuestion := q\<lparr>qName := n\<rparr> # qs, mExtra := private_extra (he_lib env) (DNSSEC (Server (h_cfg h)))
      (EDNS0Padding (OpSec (h_cfg h))) p new (mExtra r)\<rparr> \<and>
    map lower_byte n = map lower_byte (qName q) \<and> (DNS0x20 (OpSec (h_cfg h)) \<or> n = qName q) \<and>
    mExtra (SetEdns0 (he_lib env) (r\<lparr>mQuestion := q\<lparr>qName := n\<rparr> # qs\<rparr>) 1232 (DNSSEC (Server (h_cfg h)))) =
      mExtra r @ [RR_OPT new []] \<and>
    no_ecs m \<and>
    (EDNS0Padding (OpSec (h_cfg h)) \<longrightarrow> int (WireLen (he_lib env) m) mod
       (if PaddingBlockSize (OpSec (h_cfg h)) \<le> 0 then 128 else PaddingBlockSize (OpSec (h_cfg h))) = 0)"
proof -
  have ne: "mQuestion r \<noteq> []" using assms(2) by simp
  obtain m where m: "prepareUpstreamQuery env rand h r = Some m"
    by (rule prepare_total [OF assms(1)])
  have form: "upstream_form env (h_cfg h) r m" by (rule prepared_form [OF assms(1) ne assms(3) m])
  then obtain n new p where *:
    "m = r\<lparr>mQuestion := q\<lparr>qName := n\<rparr> # qs, mExtra := private_extra (he_lib env) (DNSSEC (Server (h_cfg h)))
      (EDNS0Padding (OpSec (h_cfg h))) p new (mExtra r)\<rparr>"
    "map lower_byte n = map lower_byte (qName q)" "DNS0x20 (OpSec (h_cfg h)) \<or> n = qName q"
    "mExtra (SetEdns0 (he_lib env) (r\<lparr>mQuestion := q\<lparr>qName := n\<rparr> # qs\<rparr>) 1232 (DNSSEC (Server (h_cfg h)))) =
      mExtra r @ [RR_OPT new []]"
    unfolding upstream_form_def Let_def assms(2) list.sel by blast
  show ?thesis
    by (rule exI [of _ m], rule exI [of _ n], rule exI [of _ new], rule exI [of _ p])
       (intro conjI m *, use form in \<open>simp_all add: upstream_form_def\<close>)
qed

lemma upstream_query_private_witness:
  "\<exists>m n p. prepareUpstreamQuery (example_henv {}) (\<lambda>n. replicate n 0) example_handler
     ((example_query ''a.b.'')\<lparr>mExtra := [RR_OPT (example_hdr 4096 True)
        [EDNS0_Other EDNS0SUBNET [1, 2, 3], EDNS0_Other 10 [7]]]\<rparr>) = Some m \<and>
     m = (example_query ''a.b.'')\<lparr>mQuestion := [\<lparr>qName = n, qType = TypeA, qClass = ClassINET\<rparr>],
       mExtra := [RR_OPT (SetDo example_lib (example_hdr 4096 True)) [EDNS0_Other 10 [7], EDNS0_PADDING p]]\<rparr> \<and> no_ecs m"
proof -
  let ?r = "(example_query ''a.b.'')\<lparr>mExtra := [RR_OPT (example_hdr 4096 True)
        [EDNS0_Other EDNS0SUBNET [1, 2, 3], EDNS0_Other 10 [7]]]\<rparr>"
  have h: "is_opt (RR_OPT (example_hdr 4096 True) os)" for os by (simp add: example_hdr_def)
  have q: "mQuestion ?r = [\<lparr>qName = ''a.b.'', qType = TypeA, qClass = ClassINET\<rparr>]"
    "length (filter is_opt (mExtra ?r)) \<le> 1"
    by simp_all
  have cfg: "h_cfg example_handler = DefaultConfig"
    by (simp add: example_handler_def NewHandler_def Let_def)
  have flags: "DNSSEC (Server DefaultConfig)" "EDNS0Padding (OpSec DefaultConfig)"
    by (simp_all add: DefaultConfig_def)
  from upstream_query_private [OF example_henv_ok q, of "{}" "\<lambda>n. replicate n 0" example_handler, unfolded cfg]
  obtain m n new p where m: "prepareUpstreamQuery (example_henv {}) (\<lambda>n. replicate n 0) example_handler ?r = Some m" "no_ecs m"
    "m = ?r\<lparr>mQuestion := [\<lparr>qName = ''a.b.'', qType = TypeA, qClass = ClassINET\<rparr>\<lparr>qName := n\<rparr>],
       mExtra := private_extra (he_lib (example_henv {})) (DNSSEC (Server DefaultConfig)) (EDNS0Padding (OpSec DefaultConfig))
         p new (mExtra ?r)\<rparr>"
    by blast
  moreover have "private_extra example_lib True True p new (mExtra ?r) =
      [RR_OPT (SetDo example_lib (example_hdr 4096 True)) [EDNS0_Other 10 [7], EDNS0_PADDING p]]"
    using h by (simp add: private_extra_def private_rr_def dns_consts Let_def)
  ultimately show ?thesis using flags by (intro exI [of _ m] exI [of _ n] exI [of _ p]) simp
qed

text \<open>
  C23. When every upstream fails the client is told so: a query that is neither blocked nor in the cache and for
  which the forwarder returns an error is answered with SERVFAIL, and nothing is cached.
\<close>

theorem upstream_failure_servfail:
  assumes "dns_ok (he_lib env)" "mQuestion r \<noteq> []" "\<not> blocked env h r" "lookup env r h io = (None, c)"
    "prepareUpstreamQuery env rand h r = Some req"
    "Forward (he_net env) order (query_context env h io) (h_forwarder h) req (io_world io) = Some ((resp, rtt, Some e), f, w)"
  shows "\<exists>h' io' reply. ServeDNS env rand order (Some r) (h, io) = Some (h', io') \<and>
    h_cache h' = c \<and> io_written io' = io_written io @ [reply] \<and> reply_to r RcodeServerFailure reply"
proof -
  obtain m where "SetRcode (he_lib env) new_msg (Some r) RcodeServerFailure = Some m"
    "reply_to r RcodeServerFailure m"
    using dns_okD(3) [OF assms(1)] unfolding reply_ok_def by blast
  then show ?thesis
    using serve_local_miss [OF assms(2-4), of rand] assms(5,6)
    by (simp add: ServeDNS_def forward_step_def after_forward_def Let_def)
qed

lemma upstream_failure_servfail_witness:
  "\<exists>h' io' reply. ServeDNS (example_henv {}) (\<lambda>n. []) [1, 0] (Some (example_query ''a.b.''))
      (example_handler\<lparr>h_filter := NewEngine (example_cfg\<lparr>Enabled := False\<rparr>),
        h_forwarder := (example_fw ''failover'')\<lparr>fw_resolvers := [Standard example_std]\<rparr>\<rparr>, example_io) = Some (h', io') \<and>
    io_written io' = [reply] \<and> reply_to (example_query ''a.b.'') RcodeServerFailure reply"
proof -
  let ?h = "example_handler\<lparr>h_filter := NewEngine (example_cfg\<lparr>Enabled := False\<rparr>),
        h_forwarder := (example_fw ''failover'')\<lparr>fw_resolvers := [Standard example_std]\<rparr>\<rparr>"
  let ?q = "example_query ''a.b.''" and ?env = "example_henv {}"
  have free: "\<not> blocked ?env ?h ?q" by (simp add: blocked_def IsBlocked_def)
  have cache: "h_cache ?h = NewCache example_cache_cfg"
    by (simp add: example_handler_def NewHandler_def Let_def)
  have miss: "lookup ?env ?q ?h example_io = (None, h_cache ?h)"
    unfolding lookup_def cache by (simp add: Get_def NewCache_def Let_def)
  obtain req where prep: "prepareUpstreamQuery ?env (\<lambda>n. []) ?h ?q = Some req"
    by (rule prepare_total [OF example_henv_ok])
  have std: "std_exchange (example_net {}) ctx example_std req w =
     ((None, Some (StdErr ''9.9.9.9:53'' ''down'')), w @ [''9.9.9.9:53'', ''9.9.9.9:53''])" for w ctx
    by (simp add: std_exchange_def example_net_def example_std_def Let_def)
  have "\<exists>resp rtt e f w. Forward (he_net ?env) [1, 0] (query_context ?env ?h example_io) (h_forwarder ?h) req (io_world example_io) =
      Some ((resp, rtt, Some e), f, w)"
    by (simp add: Forward_def forwardFailover_def example_fw_def attempt_def exchange_at_def std example_henv_def)
  then obtain resp rtt e f w where "Forward (he_net ?env) [1, 0] (query_context ?env ?h example_io) (h_forwarder ?h) req (io_world example_io) =
      Some ((resp, rtt, Some e), f, w)" by blast
  from upstream_failure_servfail [OF example_henv_ok _ free miss prep this] show ?thesis
    by (simp add: example_io_def) blast
qed

text \<open>
  C24. In zero-log mode a logger at level Info or above prints nothing about a query, with two exceptions: the
  warnings for a failed resolution and for a rebinding answer, which name the domain.
\<close>

theorem zero_log_prints_only_warnings:
  assumes "ServeDNS env rand order r0 (h, io) = Some (h', io')" "ZeroLog (OpSec (h_cfg h))" "LevelInfo \<le> lvl"
  shows "\<exists>evs. printed lvl (io_log io') = printed lvl (io_log io) @ evs \<and>
    list_all (\<lambda>e. le_level e = LevelWarn \<and>
      (le_msg e = ''upstream resolution failed'' \<or>
       le_msg e = ''blocked DNS rebinding attack resolving to private/local IP'')) evs"
proof -
  obtain p where p: "serve_local env rand r0 (h, io) = Some p"
    using assms(1) by (auto simp: ServeDNS_def split: option.splits)
  show ?thesis
  proof (cases p)
    case (Replied s)
    then have "s = (h', io')" using assms(1) p by (simp add: ServeDNS_def)
    then show ?thesis using zero_log_local [OF assms(2,3) p] Replied by auto
  next
    case (Pending r req s)
    obtain h1 where s: "s = (h1, io)" "h_cfg h1 = h_cfg h"
      using zero_log_local [OF assms(2,3) p] Pending by (cases s) auto
    obtain res f w where fw: "forward_step env order req s = Some (res, h1\<lparr>h_forwarder := f\<rparr>, io\<lparr>io_world := w\<rparr>)"
      "after_forward env r req res (h1\<lparr>h_forwarder := f\<rparr>, io\<lparr>io_world := w\<rparr>) = Some (h', io')"
      using assms(1) p Pending s by (auto simp: ServeDNS_def forward_step_def split: option.splits)
    have "ZeroLog (OpSec (h_cfg (h1\<lparr>h_forwarder := f\<rparr>)))" using assms(2) s(2) by simp
    from zero_log_after [OF this assms(3) fw(2)] show ?thesis by (simp add: warnings_def)
  qed
qed

lemma zero_log_prints_only_warnings_witness:
  "\<exists>h' io' evs. ServeDNS (example_henv {}) (\<lambda>n. replicate n 0) [1, 0] (Some (example_query ''a.b.''))
      (example_handler, example_io) = Some (h', io') \<and>
    printed LevelInfo (io_log io') = evs \<and> list_all (\<lambda>e. le_level e = LevelWarn) evs"
proof -
  have q: "mQuestion (example_query ''a.b.'') \<noteq> []" by simp
  obtain h' io' where serve: "ServeDNS (example_henv {}) (\<lambda>n. replicate n 0) [1, 0] (Some (example_query ''a.b.''))
      (example_handler, example_io) = Some (h', io')"
    by (rule ServeDNS_answered [OF example_henv_ok example_handler_inv example_arrivals q])
  have "ZeroLog (OpSec (h_cfg example_handler))"
    by (simp add: example_handler_def NewHandler_def Let_def DefaultConfig_def)
  from zero_log_prints_only_warnings [OF serve this, of LevelInfo] serve show ?thesis
    by (auto simp: example_io_def list_all_iff)
qed

text \<open>
  The exception for failed resolutions, in full: in every configuration, zero-log mode included, a query
  that no upstream answers leaves a warning with its domain on the log.
\<close>

lemma failure_warning_names_domain:
  assumes "dns_ok (he_lib env)" "mQuestion r \<noteq> []" "\<not> blocked env h r" "lookup env r h io = (None, c)"
    "prepareUpstreamQuery env rand h r = Some req"
    "Forward (he_net env) order (query_context env h io) (h_forwarder h) req (io_world io) = Some ((resp, rtt, Some e), f, w)"
  shows "\<exists>h' io' ev. ServeDNS env rand order (Some r) (h, io) = Some (h', io') \<and>
    ev \<in> set (printed LevelWarn (io_log io')) \<and> qname_of env r \<in> set (event_texts ev)"
proof -
  obtain m where "SetRcode (he_lib env) new_msg (Some r) RcodeServerFailure = Some m"
    using dns_okD(3) [OF assms(1)] unfolding reply_ok_def by blast
  then show ?thesis
    using serve_local_miss [OF assms(2-4), of rand] assms(5,6)
    by (simp add: ServeDNS_def forward_step_def after_forward_def Let_def event_texts_def) (rule exI, rule conjI, rule disjI1, rule refl, simp)
qed

text \<open>
  C11. The cache answers the next query: after a clean, cacheable response has been delivered, a query for the
  same name in any case, with the same type and class, is answered without the network until the
  response expires, under its own ID and with the same records up to their TTLs.  The question section
  of that answer keeps the spelling of the first client's query.
\<close>

theorem second_query_from_cache:
  assumes "dns_ok (he_lib env)" "handler_inv env es h" "mQuestion r = q # qs" "mQuestion r2 = q2 # qs2"
    "to_lower (he_lower env) (Fqdn (he_lib env) (qName q2)) = to_lower (he_lower env) (Fqdn (he_lib env) (qName q))"
    "qType q2 = qType q" "qClass q2 = qClass q"
    and "\<not> blocked env h r" "clean_now env h (qname_of env r) m" "storable (h_cache h) r m"
    and "deliver env r q (qname_of env r) rtt m h io = (h1, io1)"
    and "now_of env io2 \<le> expiry (minTTL (h_cache h)) (maxTTL (h_cache h)) (now_of env io) m"
  shows "\<exists>h2 io3 reply ttl. ServeDNS env rand order (Some r2) (h1, io2) = Some (h2, io3) \<and>
    io_world io3 = io_world io2 \<and> io_written io3 = io_written io2 @ [reply] \<and>
    mId reply = mId r2 \<and> mRcode reply = mRcode m \<and> mAnswer reply = map (update_ttl ttl) (mAnswer m) \<and>
    mQuestion reply = (case mQuestion m of [] \<Rightarrow> [] | qm # qms \<Rightarrow> qm\<lparr>qName := qName q\<rparr> # qms)"
proof -
  let ?lib = "he_lib env" and ?ul = "he_lower env" and ?m = "final_reply r m"
  define c1 where "c1 = Set ?lib ?ul (now_of env io) (Some r) (Some ?m) (h_cache h)"
  have h1: "h1 = fst (logQuery env ''forwarded'' (qname_of env r) (qType q) rtt (h\<lparr>h_cache := c1\<rparr>) io)"
    using assms(11) deliver_clean [OF assms(9), of r q rtt io] by (simp add: c1_def case_prod_beta Let_def)
  have frame: "h_cache h1 = c1" "h_filter h1 = h_filter h" by (simp_all add: h1)
  have ttl: "calculateMinTTL ?m = calculateMinTTL m" by (simp add: calculateMinTTL_def)
  have stor: "storable (h_cache h) r ?m"
    using assms(10) by (simp add: storable_def cacheable_def ttl)
  have key: "query_key ?lib ?ul r2 = query_key ?lib ?ul r"
    using assms(3-7) by (simp add: query_key_def makeKey_def)
  have exp: "expiry mn mx t ?m = expiry mn mx t m" for mn mx t by (simp add: expiry_def stored_ttl_def ttl)
  obtain ttl where "fst (lookup env r2 h1 io2) = Some (serve_copy ?lib (mId r2) ttl (Copy ?lib ?m))"
    using Get_after_Set [OF _ stor key, of "now_of env io2" "now_of env io"] assms(2,12)
    by (auto simp: lookup_def frame c1_def exp handler_inv_def)
  then obtain c2 where hit: "lookup env r2 h1 io2 = (Some (serve_copy ?lib (mId r2) ttl ?m), c2)"
    using Copy_id [OF assms(1)] by (metis prod.collapse)
  have r2: "mQuestion r2 \<noteq> []" "\<not> blocked env h1 r2"
    using assms(3-5,8) by (simp_all add: blocked_def frame)
  have question: "mQuestion (serve_copy ?lib (mId r2) ttl ?m) =
      (case mQuestion m of [] \<Rightarrow> [] | qm # qms \<Rightarrow> qm\<lparr>qName := qName q\<rparr> # qms)"
    using assms(3) Copy_id [OF assms(1)]
    by (simp add: final_reply_def restore_name_def set_qname_def split: list.split)
  show ?thesis
    using serve_local_hit [OF r2 hit, of rand] question Copy_id [OF assms(1)]
    by (simp add: ServeDNS_def case_prod_beta) blast
qed

lemma second_query_from_cache_witness:
  "\<exists>h1 io1 h2 io3 reply. deliver (example_henv {}) (example_query ''a.B.'')
      \<lparr>qName = ''a.B.'', qType = TypeA, qClass = ClassINET\<rparr> (qname_of (example_henv {}) (example_query ''a.B.''))
      0 (example_response ''a.B.'' 300) (example_handler\<lparr>h_filter := NewEngine (example_cfg\<lparr>Enabled := False\<rparr>)\<rparr>)
      example_io = (h1, io1) \<and>
    ServeDNS (example_henv {}) (\<lambda>n. []) [] (Some (example_query ''A.b'')) (h1, io1) = Some (h2, io3) \<and>
    io_world io3 = io_world io1 \<and> io_written io3 = io_written io1 @ [reply] \<and>
    mQuestion reply = [\<lparr>qName = ''a.B.'', qType = TypeA, qClass = ClassINET\<rparr>]"
proof -
  let ?env = "example_henv {}" and ?r = "example_query ''a.B.''" and ?r2 = "example_query ''A.b''"
  let ?h = "example_handler\<lparr>h_filter := NewEngine (example_cfg\<lparr>Enabled := False\<rparr>)\<rparr>"
  let ?m = "example_response ''a.B.'' 300"
  have cache: "h_cache ?h = NewCache example_cache_cfg" and cfg: "h_cfg ?h = DefaultConfig"
    by (simp_all add: example_handler_def NewHandler_def Let_def)
  have inv: "handler_inv ?env {NewEngine (example_cfg\<lparr>Enabled := False\<rparr>)} ?h"
  proof -
    have "?h = NewHandler DefaultConfig (NewEngine (example_cfg\<lparr>Enabled := False\<rparr>)) (example_fw ''failover'')
        (NewCache example_cache_cfg)"
      by (simp add: example_handler_def NewHandler_def Let_def)
    then show ?thesis using NewHandler_inv [of "example_fw ''failover''"] by (simp add: example_fw_def)
  qed
  have names: "to_lower id (Fqdn example_lib ''A.b'') = to_lower id (Fqdn example_lib ''a.B.'')" by code_simp
  have free: "\<not> blocked ?env ?h ?r" by (simp add: blocked_def IsBlocked_def)
  have "\<not> IsPrivateOrLocalIP [93, 184, 216, 34]" by code_simp
  then have clean: "clean_now ?env ?h (qname_of ?env ?r) ?m"
    by (simp add: clean_def FilterDNSRebinding_def example_response_def example_answer_def)
  have stor: "storable (h_cache ?h) ?r ?m" unfolding cache by (rule example_storable) simp
  obtain h1 io1 where d: "deliver ?env ?r \<lparr>qName = ''a.B.'', qType = TypeA, qClass = ClassINET\<rparr>
      (qname_of ?env ?r) 0 ?m ?h example_io = (h1, io1)"
    by (metis prod.exhaust)
  have "now_of ?env io1 = now_of ?env example_io"
    using d deliver_clean [OF clean, of ?r _ 0 example_io] by (auto simp: now_of_def Let_def case_prod_beta)
  then have "now_of ?env io1 \<le> expiry (minTTL (h_cache ?h)) (maxTTL (h_cache ?h)) (now_of ?env example_io) ?m"
    using Second_pos by (simp add: cache example_ttls example_expiry order_less_imp_le del: Second_pos)
  from second_query_from_cache [OF example_henv_ok inv example_question(1) example_question(1) _ _ _ free clean stor d this,
      where rand = "\<lambda>n. []" and order = "[]"] names d
  have "\<exists>h2 io3 reply. ServeDNS ?env (\<lambda>n. []) [] (Some ?r2) (h1, io1) = Some (h2, io3) \<and>
    io_world io3 = io_world io1 \<and> io_written io3 = io_written io1 @ [reply] \<and>
    mQuestion reply = [\<lparr>qName = ''a.B.'', qType = TypeA, qClass = ClassINET\<rparr>]"
    by (simp add: example_response_def) blast
  with d show ?thesis by blast
qed

end
