(* ===== verification/Query_Log.thy ===== *)
theory Query_Log
  imports Handler_Properties
begin

text \<open>
  What the query handler leaves in the ring buffer: one entry for every query, but for those that no
  upstream answered, and that the entry tells what happened.
\<close>

section \<open>The entry of a query\<close>

text \<open>
  What a query must leave in the log, and which message its client must get: a blocked name, a cached response, a
  response of the forwarder that may be passed on, one that may not.  Time and round trip are those of the phase
  that decides: the arrival of the query, or the return of the forwarder.  \<open>None\<close>: the upstreams failed.
\<close>

definition log_entry ::
  "('w, 'c, 'e, 're) handler_env \<Rightarrow> msg \<Rightarrow> int \<Rightarrow> string \<Rightarrow> duration \<Rightarrow> query_log_entry" where
  "log_entry env r t st rtt =
     \<lparr>ql_Timestamp = t, ql_Domain = qname_of env r, ql_Qtype = qType (hd (mQuestion r)), ql_Status = st, ql_RTT = rtt\<rparr>"

definition log_spec ::
  "('w, 'c, 'e, 're) handler_env \<Rightarrow> (nat \<Rightarrow> u8 list) \<Rightarrow> nat list \<Rightarrow> msg \<Rightarrow> 're handler \<Rightarrow> ('w, 'e) io \<Rightarrow>
     (query_log_entry \<times> msg) option" where
  "log_spec env rand order r h io =
     (let sinkhole = sinkhole_reply env h r (hd (mQuestion r)) in
      if blocked env h r then Some (log_entry env r (now_of env io) ''blocked'' 0, sinkhole)
      else
        (case fst (lookup env r h io) of
           Some m \<Rightarrow> Some (log_entry env r (now_of env io) ''cache_hit'' 0, m)
         | None \<Rightarrow>
             (case Forward (he_net env) order (query_context env h io) (h_forwarder h)
                     (the (prepareUpstreamQuery env rand h r)) (io_world io) of
                Some ((Some m, rtt, err), f, w) \<Rightarrow>
                  (if clean_now env h (qname_of env r) m
                   then Some (log_entry env r (ne_now (he_net env) w) ''forwarded'' rtt, final_reply r m)
                   else Some (log_entry env r (ne_now (he_net env) w) ''blocked'' 0, sinkhole))
              | _ \<Rightarrow> None)))"

text \<open>A step that leaves one entry and one reply.\<close>

definition recorded ::
  "query_log_entry \<times> msg \<Rightarrow> 're handler \<Rightarrow> ('w, 'e) io \<Rightarrow> 're handler \<Rightarrow> ('w, 'e) io \<Rightarrow> bool" where
  "recorded x h io h' io' \<longleftrightarrow>
     h_ringBuffer h' = Push (h_ringBuffer h) (Some (fst x)) \<and> io_written io' = io_written io @ [snd x]"

lemma logQuery_ring:
  "h_ringBuffer (fst (logQuery env st d t rtt h io)) =
     Push (h_ringBuffer h)
       (Some \<lparr>ql_Timestamp = now_of env io, ql_Domain = d, ql_Qtype = t, ql_Status = st, ql_RTT = rtt\<rparr>)"
  by (auto simp: logQuery_def Let_def Push_def)

lemma handleBlocked_recorded:
  "recorded (log_entry env r (now_of env io) ''blocked'' 0, sinkhole_reply env h r (hd (mQuestion r))) h io
     (fst (handleBlocked env r (hd (mQuestion r)) (qname_of env r) h io))
     (snd (handleBlocked env r (hd (mQuestion r)) (qname_of env r) h io))"
  by (simp add: recorded_def handleBlocked_def case_prod_beta logQuery_ring log_entry_def)

lemma deliver_recorded:
  assumes "deliver env r (hd (mQuestion r)) (qname_of env r) rtt m h io = (h', io')"
  shows "recorded
    (if clean_now env h (qname_of env r) m then (log_entry env r (now_of env io) ''forwarded'' rtt, final_reply r m)
     else (log_entry env r (now_of env io) ''blocked'' 0, sinkhole_reply env h r (hd (mQuestion r)))) h io h' io'"
proof (cases "clean_now env h (qname_of env r) m")
  case True
  then show ?thesis
    using assms deliver_clean [OF True, of r "hd (mQuestion r)" rtt io]
    by (auto simp: recorded_def case_prod_beta Let_def logQuery_ring log_entry_def)
next
  case False
  obtain l t a where "deliver env r (hd (mQuestion r)) (qname_of env r) rtt m h io =
      handleBlocked env r (hd (mQuestion r)) (qname_of env r) h (emit l t a io)"
    by (rule deliver_unclean [OF False])
  with assms have "h' = fst (handleBlocked env r (hd (mQuestion r)) (qname_of env r) h (emit l t a io))"
    "io' = snd (handleBlocked env r (hd (mQuestion r)) (qname_of env r) h (emit l t a io))"
    by (metis fst_conv, metis snd_conv)
  then show ?thesis
    using handleBlocked_recorded [of env r "emit l t a io" h] False by (simp add: recorded_def)
qed

lemma after_forward_recorded:
  assumes "mQuestion req \<noteq> []" "after_forward env r req (Some m, rtt, None) (h, io) = Some (h', io')"
  shows "recorded
    (if clean_now env h (qname_of env r) m then (log_entry env r (now_of env io) ''forwarded'' rtt, final_reply r m)
     else (log_entry env r (now_of env io) ''blocked'' 0, sinkhole_reply env h r (hd (mQuestion r)))) h io h' io'"
proof -
  obtain io1 where io1: "check_casing env req m (qname_of env r) h io = Some io1" "io_written io1 = io_written io"
    "now_of env io1 = now_of env io"
    using check_casing_result [OF assms(1), of env m "qname_of env r" h io] by (metis emit_frame(2) now_of_frame(1))
  then have "deliver env r (hd (mQuestion r)) (qname_of env r) rtt m h io1 = (h', io')"
    using assms(2) by (simp add: after_forward_def Let_def)
  from deliver_recorded [OF this] io1(2,3) show ?thesis by (simp add: recorded_def)
qed

lemma after_forward_failed:
  assumes "dns_ok (he_lib env)" "after_forward env r req (resp, rtt, Some e) (h, io) = Some (h', io')"
  shows "h_ringBuffer h' = h_ringBuffer h \<and>
    (\<exists>reply. io_written io' = io_written io @ [reply] \<and> reply_to r RcodeServerFailure reply)"
proof -
  obtain m where "SetRcode (he_lib env) new_msg (Some r) RcodeServerFailure = Some m"
    "reply_to r RcodeServerFailure m"
    using dns_okD(3) [OF assms(1)] unfolding reply_ok_def by blast
  then show ?thesis using assms(2) by (auto simp: after_forward_def Let_def)
qed

lemma clean_now_setup: "same_setup h' h \<Longrightarrow> clean_now env h' d m = clean_now env h d m"
  by (simp add: same_setup_def)

lemma ServeDNS_recorded:
  assumes "dns_ok (he_lib env)" "handler_inv env es h" "arrivals order h" "mQuestion r \<noteq> []"
    "ServeDNS env rand order (Some r) (h, io) = Some (h', io')"
  shows "case log_spec env rand order r h io of
      Some x \<Rightarrow> recorded x h io h' io'
    | None \<Rightarrow> h_ringBuffer h' = h_ringBuffer h \<and>
        (\<exists>reply. io_written io' = io_written io @ [reply] \<and> reply_to r RcodeServerFailure reply)"
proof (cases "blocked env h r")
  case True
  then show ?thesis
    using assms(5) serve_local_blocked [OF assms(4) True, of rand io] handleBlocked_recorded [of env r io h]
    by (simp add: ServeDNS_def log_spec_def)
next
  case nb: False
  obtain hit c where get: "lookup env r h io = (hit, c)" by (cases "lookup env r h io")
  show ?thesis
  proof (cases hit)
    case (Some m)
    then show ?thesis
      using assms(5) serve_local_hit [OF assms(4) nb, of io m c rand] get nb
      by (auto simp: ServeDNS_def case_prod_beta log_spec_def recorded_def logQuery_ring log_entry_def)
  next
    case None
    obtain req where req: "prepareUpstreamQuery env rand h r = Some req" by (rule prepare_total [OF assms(1)])
    define h1 where "h1 = h\<lparr>h_cache := c\<rparr>"
    have pend: "serve_local env rand (Some r) (h, io) = Some (Pending r req (h1, io))"
      using serve_local_miss [OF assms(4) nb, of io c rand] get None req by (simp add: h1_def)
    have inv: "handler_inv env es h1" using handler_inv_lookup [OF assms(2), of r io] get by (simp add: h1_def)
    have arr: "arrivals order h1" using assms(3) by (simp add: h1_def arrivals_def)
    obtain resp rtt err f w where fw:
      "forward_step env order req (h1, io) = Some ((resp, rtt, err), h1\<lparr>h_forwarder := f\<rparr>, io\<lparr>io_world := w\<rparr>)"
      "resp = None \<longleftrightarrow> err \<noteq> None" "same_setup (h1\<lparr>h_forwarder := f\<rparr>) h1"
      "Forward (he_net env) order (query_context env h1 io) (h_forwarder h1) req (io_world io) = Some ((resp, rtt, err), f, w)"
      using forward_step_result [OF inv arr assms(1)] by metis
    have af: "after_forward env r req (resp, rtt, err) (h1\<lparr>h_forwarder := f\<rparr>, io\<lparr>io_world := w\<rparr>) = Some (h', io')"
      using assms(5) pend fw(1) by (simp add: ServeDNS_def)
    have ring: "h_ringBuffer (h1\<lparr>h_forwarder := f\<rparr>) = h_ringBuffer h" by (simp add: h1_def)
    have frame: "clean_now env (h1\<lparr>h_forwarder := f\<rparr>) d x = clean_now env h d x"
      "sinkhole_reply env (h1\<lparr>h_forwarder := f\<rparr>) r q = sinkhole_reply env h r q" for d x q
      by (simp_all add: h1_def)
    have spec: "log_spec env rand order r h io =
      (case resp of
         Some m \<Rightarrow> Some (if clean_now env h (qname_of env r) m
           then (log_entry env r (ne_now (he_net env) w) ''forwarded'' rtt, final_reply r m)
           else (log_entry env r (ne_now (he_net env) w) ''blocked'' 0, sinkhole_reply env h r (hd (mQuestion r))))
       | None \<Rightarrow> None)"
      using nb get None req fw(4) by (simp add: log_spec_def h1_def split: option.split)
    show ?thesis
    proof (cases resp)
      case (Some m)
      with fw(2) af have "after_forward env r req (Some m, rtt, None) (h1\<lparr>h_forwarder := f\<rparr>, io\<lparr>io_world := w\<rparr>) = Some (h', io')"
        by simp
      from after_forward_recorded [OF prepare_question [OF assms(1,4) req] this] show ?thesis
        unfolding spec frame using Some by (simp add: recorded_def ring now_of_def)
    next
      case None
      with fw(2) obtain e where "err = Some e" by auto
      with af after_forward_failed [OF assms(1)] ring show ?thesis unfolding spec None by fastforce
    qed
  qed
qed

section \<open>Property\<close>

text \<open>
  C25. The query log is complete but for failures, and tells the truth.  A query whose upstreams failed is answered with
  SERVFAIL and leaves no entry.  Every other query leaves exactly one, the newest that \<^verbatim>\<open>GetRecent\<close> returns, and it
  is exactly this one: with the name and type of the query and the time and round trip of the phase that decided,
  \<^verbatim>\<open>blocked\<close> if the name is blocked or the upstream's response may not be passed on (and the client got the sinkhole
  answer), \<^verbatim>\<open>cache_hit\<close> if the cache had a response (and the client got that), \<^verbatim>\<open>forwarded\<close> if the client got the
  response of the forwarder.  The entries before it are kept, as far as the capacity allows.
\<close>

theorem query_log_complete:
  assumes "dns_ok (he_lib env)" "handler_inv env es h" "arrivals order h" "mQuestion r \<noteq> []"
    "ServeDNS env rand order (Some r) (h, io) = Some (h', io')"
    and "RingBuffer h = Some rb" "rb_repr rb hs" "length hs < 2 ^ 63" "limit < 2 ^ 63"
  shows "case log_spec env rand order r h io of
      Some (e, reply) \<Rightarrow>
        GetRecent (RingBuffer h') limit = take (min (nat limit) (unat (rb_size rb))) (e # hs) \<and>
        io_written io' = io_written io @ [reply]
    | None \<Rightarrow>
        RingBuffer h' = RingBuffer h \<and>
        (\<exists>reply. io_written io' = io_written io @ [reply] \<and> reply_to r RcodeServerFailure reply)"
proof -
  have rb: "h_ringBuffer h = Some rb" using assms(6) by (simp add: RingBuffer_def)
  have recent: "GetRecent (Push (Some rb) (Some e)) limit = take (min (nat limit) (unat (rb_size rb))) (e # hs)" for e
  proof -
    have "length hs + 1 < 2 ^ 64" using assms(8) by simp
    then obtain rb' where rb': "Push (Some rb) (Some e) = Some rb'" "rb_repr rb' (e # hs)" "rb_size rb' = rb_size rb"
      by (rule Push_repr [OF assms(7)])
    have "unat (rb_size rb') < 2 ^ 63" using rb'(2) by (simp add: rb_repr_def rb_wf_def)
    then show ?thesis using GetRecent_repr [OF rb'(2) _ assms(9)] assms(8) rb' by simp
  qed
  show ?thesis
    using ServeDNS_recorded [OF assms(1-5)] recent
    by (auto simp: RingBuffer_def rb recorded_def split: option.splits)
qed

lemma query_log_complete_witness:
  "\<exists>h' io'. ServeDNS (example_henv {}) (\<lambda>n. []) [1, 0] (Some (example_query ''bad.evil.com'')) (example_handler, example_io) =
      Some (h', io') \<and>
    GetRecent (RingBuffer h') 5 = [\<lparr>ql_Timestamp = 0, ql_Domain = ''bad.evil.com.'', ql_Qtype = TypeA,
      ql_Status = ''blocked'', ql_RTT = 0\<rparr>]"
proof -
  let ?q = "example_query ''bad.evil.com''"
  have q: "mQuestion ?q \<noteq> []" by simp
  obtain h' io' where serve: "ServeDNS (example_henv {}) (\<lambda>n. []) [1, 0] (Some ?q) (example_handler, example_io) = Some (h', io')"
    by (rule ServeDNS_answered [OF example_henv_ok example_handler_inv example_arrivals q])
  let ?rb = "NewRingBuffer (RingBufferSize (OpSec DefaultConfig)) :: query_log_entry ring_buffer"
  have size: "0 < RingBufferSize (OpSec DefaultConfig)" "RingBufferSize (OpSec DefaultConfig) < 2 ^ 63"
    by (simp_all add: DefaultConfig_def)
  have rb: "RingBuffer example_handler = Some ?rb"
    using size(1) by (simp add: RingBuffer_def example_handler_def NewHandler_def Let_def)
  have "unat (rb_size ?rb) = nat (RingBufferSize (OpSec DefaultConfig))" using NewRingBuffer_size [OF size(2)] size(1) by simp
  then have cap: "take (min 5 (unat (rb_size ?rb))) [e] = [e]" for e using size(1) by (simp add: take_Cons')
  have name: "qname_of (example_henv {}) ?q = ''bad.evil.com.''" by (simp, code_simp)
  have "blocked (example_henv {}) example_handler ?q"
    unfolding blocked_def name
    using blocked_by_entry [OF _ example_entry, of "NewEngine example_cfg" "''bad.evil.com.''" example_env id] example_white
    by (simp add: example_handler_def NewHandler_def Let_def example_engine_def example_cfg_def DefaultConfig_def)
  then have spec: "log_spec (example_henv {}) (\<lambda>n. []) [1, 0] ?q example_handler example_io =
      Some (\<lparr>ql_Timestamp = 0, ql_Domain = ''bad.evil.com.'', ql_Qtype = TypeA, ql_Status = ''blocked'', ql_RTT = 0\<rparr>,
        sinkhole_reply (example_henv {}) example_handler ?q (hd (mQuestion ?q)))"
    unfolding log_spec_def log_entry_def name by (simp add: now_of_def example_henv_def example_net_def example_io_def)
  from query_log_complete [OF example_henv_ok example_handler_inv example_arrivals q serve rb NewRingBuffer_repr [OF size(2)], of 5]
  show ?thesis using serve unfolding spec by (simp add: cap)
qed

end
