(* ===== verification/Dns_Server.thy ===== *)
theory Dns_Server
  imports Config Logging "HOL-Library.Multiset"
begin

text \<open>
  \<^verbatim>\<open>internal/dns/server.go\<close>: one UDP and one TCP listener for every configured address.  The listeners are
  servers of miekg/dns: what \<^verbatim>\<open>ListenAndServe\<close> and \<^verbatim>\<open>ShutdownContext\<close> return is an argument.  All
  listeners share the handler, which is part of the daemon's state.  \<open>Start\<close> and \<open>Shutdown\<close> take
  the order in which their goroutines report.
\<close>

section \<open>Servers\<close>

record dns_server =
  ds_Addr :: string
  ds_Net :: string
  ds_ReadTimeout :: duration
  ds_WriteTimeout :: duration

record server =
  sv_cfg :: server_config
  sv_udpServers :: "dns_server list"
  sv_tcpServers :: "dns_server list"
  sv_addrs :: "string list"

definition listener_of :: "server_config \<Rightarrow> string \<Rightarrow> string \<Rightarrow> dns_server" where
  "listener_of cfg net addr =
     \<lparr>ds_Addr = addr, ds_Net = net, ds_ReadTimeout = ReadTimeout cfg, ds_WriteTimeout = WriteTimeout cfg\<rparr>"

definition add_listeners :: "server_config \<Rightarrow> string \<Rightarrow> server \<Rightarrow> server" where
  "add_listeners cfg addr s =
     s\<lparr>sv_udpServers := sv_udpServers s @ [listener_of cfg ''udp'' addr],
       sv_tcpServers := sv_tcpServers s @ [listener_of cfg ''tcp'' addr]\<rparr>"

definition NewServer :: "server_config \<Rightarrow> server" where
  "NewServer cfg =
     (let addrs = GetListenAddrs cfg;
          s = \<lparr>sv_cfg = cfg, sv_udpServers = [], sv_tcpServers = [], sv_addrs = addrs\<rparr>
      in fold (add_listeners cfg) addrs s)"

section \<open>Start\<close>

text \<open>
  The goroutines that \<open>Start\<close> launches, an index out of range being the outer \<open>None\<close>: for every address
  the UDP and the TCP server of the same index.
\<close>

definition start_one :: "server \<Rightarrow> nat \<Rightarrow> (string \<times> dns_server) list option" where
  "start_one s i =
     (if i < length (sv_udpServers s) \<and> i < length (sv_tcpServers s) then
        Some [(sv_addrs s ! i, sv_udpServers s ! i), (sv_addrs s ! i, sv_tcpServers s ! i)]
      else None)"

fun start_all :: "server \<Rightarrow> nat list \<Rightarrow> (string \<times> dns_server) list option" where
  "start_all s [] = Some []"
| "start_all s (i # is) =
     (case start_one s i of
        None \<Rightarrow> None
      | Some ls \<Rightarrow> map_option (\<lambda>rest. ls @ rest) (start_all s is))"

definition listeners :: "server \<Rightarrow> (string \<times> dns_server) list option" where
  "listeners s = start_all s [0..<length (sv_addrs s)]"

datatype 'x listen_err = ListenErr string string 'x

definition start_event :: "string \<times> dns_server \<Rightarrow> 'y log_event" where
  "start_event = (\<lambda>(a, srv).
     \<lparr>le_level = LevelInfo,
      le_msg = (if ds_Net srv = ''udp'' then ''starting DNS UDP listener'' else ''starting DNS TCP listener''),
      le_attrs = [(''addr'', V_Str a)]\<rparr>)"

text \<open>
  \<open>reports\<close> are the listeners that return, in that order, each with the result of \<^verbatim>\<open>ListenAndServe\<close>.  \<open>Start\<close>
  returns the first error; while there is none it does not return, which is \<open>None\<close>.
\<close>

fun Start :: "((string \<times> dns_server) \<times> 'x option) list \<Rightarrow> 'x listen_err option" where
  "Start [] = None"
| "Start (((a, srv), err) # reports) =
     (case err of
        Some e \<Rightarrow> Some (ListenErr (ds_Net srv) a e)
      | None \<Rightarrow> Start reports)"

section \<open>Shutdown\<close>

text \<open>\<open>stop\<close> gives the result of \<^verbatim>\<open>ShutdownContext\<close>, \<open>order\<close> the servers in the order in which they report.\<close>

fun collect_errors :: "(dns_server \<Rightarrow> 'x option) \<Rightarrow> dns_server list \<Rightarrow> 'x listen_err list \<Rightarrow> 'x listen_err list" where
  "collect_errors stop [] errs = errs"
| "collect_errors stop (s # ss) errs =
     collect_errors stop ss
       (case stop s of None \<Rightarrow> errs | Some e \<Rightarrow> errs @ [ListenErr (ds_Net s) (ds_Addr s) e])"

definition info :: "string \<Rightarrow> 'y log_event" where
  "info text = \<lparr>le_level = LevelInfo, le_msg = text, le_attrs = []\<rparr>"

definition Shutdown ::
  "(dns_server \<Rightarrow> 'x option) \<Rightarrow> dns_server list \<Rightarrow> 'x listen_err list option \<times> 'y log_event list" where
  "Shutdown stop order =
     (let log = [info ''shutting down all DNS listeners...''];
          errs = collect_errors stop order []
      in if length errs > 0 then (Some errs, log)
         else (None, log @ [info ''all DNS listeners successfully stopped'']))"

definition shutdown_order :: "dns_server list \<Rightarrow> server \<Rightarrow> bool" where
  "shutdown_order order s \<longleftrightarrow> mset order = mset (sv_udpServers s @ sv_tcpServers s)"

section \<open>Lemmas\<close>

lemma NewServer_fields:
  "NewServer cfg =
     \<lparr>sv_cfg = cfg, sv_udpServers = map (listener_of cfg ''udp'') (GetListenAddrs cfg),
      sv_tcpServers = map (listener_of cfg ''tcp'') (GetListenAddrs cfg), sv_addrs = GetListenAddrs cfg\<rparr>"
proof -
  have "fold (add_listeners cfg) as s = s\<lparr>sv_udpServers := sv_udpServers s @ map (listener_of cfg ''udp'') as,
      sv_tcpServers := sv_tcpServers s @ map (listener_of cfg ''tcp'') as\<rparr>" for as s
    by (induction as arbitrary: s) (simp_all add: add_listeners_def)
  then show ?thesis by (simp add: NewServer_def Let_def)
qed

lemma start_all_map:
  assumes "\<And>i. i \<in> set is \<Longrightarrow> start_one s i = Some (f i)"
  shows "start_all s is = Some (concat (map f is))"
  using assms by (induction "is") simp_all

lemma listeners_NewServer:
  "listeners (NewServer cfg) =
     Some (concat (map (\<lambda>a. [(a, listener_of cfg ''udp'' a), (a, listener_of cfg ''tcp'' a)]) (GetListenAddrs cfg)))"
proof -
  let ?as = "GetListenAddrs cfg" and ?f = "\<lambda>a. [(a, listener_of cfg ''udp'' a), (a, listener_of cfg ''tcp'' a)]"
  have "listeners (NewServer cfg) = Some (concat (map (\<lambda>i. ?f (?as ! i)) [0..<length ?as]))"
    unfolding listeners_def NewServer_fields
    by (simp, rule start_all_map) (simp add: start_one_def)
  moreover have "map (\<lambda>i. ?f (?as ! i)) [0..<length ?as] = map ?f ?as"
    by (rule nth_equalityI) simp_all
  ultimately show ?thesis by simp
qed

lemma collect_errors_eq:
  "collect_errors stop ss errs =
     errs @ List.map_filter (\<lambda>s. map_option (ListenErr (ds_Net s) (ds_Addr s)) (stop s)) ss"
  by (induction ss arbitrary: errs) (auto simp: List.map_filter_simps split: option.split)

lemma map_filter_Nil: "List.map_filter f xs = [] \<longleftrightarrow> (\<forall>x \<in> set xs. f x = None)"
  by (induction xs) (auto simp: List.map_filter_simps split: option.split)

lemma Start_Some:
  "Start reports = Some err \<Longrightarrow>
     \<exists>us a srv e vs. reports = us @ ((a, srv), Some e) # vs \<and> list_all (\<lambda>x. snd x = None) us \<and>
       err = ListenErr (ds_Net srv) a e"
proof (induction reports rule: Start.induct)
  case (2 a srv err' reports)
  show ?case
  proof (cases err')
    case None
    then obtain us a1 srv1 e1 vs where "reports = us @ ((a1, srv1), Some e1) # vs"
      "list_all (\<lambda>x. snd x = None) us" "err = ListenErr (ds_Net srv1) a1 e1"
      using 2 by auto
    then show ?thesis using None by (intro exI [of _ "((a, srv), err') # us"]) auto
  next
    case (Some e)
    then show ?thesis
      using 2(2) by (intro exI [of _ "[]"] exI [of _ a] exI [of _ srv] exI [of _ e] exI [of _ reports]) auto
  qed
qed simp

lemma Start_None: "Start reports = None \<longleftrightarrow> list_all (\<lambda>x. snd x = None) reports"
  by (induction reports rule: Start.induct) (auto split: option.split)

section \<open>Properties\<close>

text \<open>
  A new server serves every configured address over both protocols and nothing else, and starting it is
  safe: the listeners launched are, for each address in order, its UDP and its TCP server with that
  address and the configured timeouts, and no index is out of range.
\<close>

theorem server_covers_addresses:
  "listeners (NewServer cfg) =
     Some (concat (map (\<lambda>a.
       [(a, \<lparr>ds_Addr = a, ds_Net = ''udp'', ds_ReadTimeout = ReadTimeout cfg, ds_WriteTimeout = WriteTimeout cfg\<rparr>),
        (a, \<lparr>ds_Addr = a, ds_Net = ''tcp'', ds_ReadTimeout = ReadTimeout cfg, ds_WriteTimeout = WriteTimeout cfg\<rparr>)])
       (GetListenAddrs cfg)))"
  using listeners_NewServer [of cfg] by (simp add: listener_of_def)

text \<open>
  C40. Shutting down succeeds exactly if every listener of the server stopped without an error; otherwise all
  errors are reported, one for each listener that failed, whatever the order in which they report.
\<close>

theorem shutdown_reports_all:
  assumes "shutdown_order order s"
  shows "case fst (Shutdown stop order) of
      None \<Rightarrow> list_all (\<lambda>srv. stop srv = None) (sv_udpServers s @ sv_tcpServers s)
    | Some errs \<Rightarrow> errs \<noteq> [] \<and>
        mset errs = mset (List.map_filter (\<lambda>srv. map_option (ListenErr (ds_Net srv) (ds_Addr srv)) (stop srv))
          (sv_udpServers s @ sv_tcpServers s))"
proof -
  let ?f = "\<lambda>srv. map_option (ListenErr (ds_Net srv) (ds_Addr srv)) (stop srv)"
  let ?all = "sv_udpServers s @ sv_tcpServers s"
  have perm: "mset order = mset ?all" using assms by (simp add: shutdown_order_def)
  have mf: "mset (List.map_filter ?f xs) = image_mset (the \<circ> ?f) (filter_mset (\<lambda>x. ?f x \<noteq> None) (mset xs))" for xs
    by (simp add: List.map_filter_def comp_def)
  have eq: "mset (List.map_filter ?f order) = mset (List.map_filter ?f ?all)" by (simp only: mf perm)
  have sets: "set order = set ?all" using perm by (rule mset_eq_setD)
  show ?thesis
  proof (cases "List.map_filter ?f order = []")
    case True
    then show ?thesis
      using sets by (auto simp: Shutdown_def Let_def collect_errors_eq map_filter_Nil list_all_iff)
  next
    case False
    then show ?thesis using eq by (simp add: Shutdown_def Let_def collect_errors_eq)
  qed
qed

lemma shutdown_reports_all_witness:
  "fst (Shutdown (\<lambda>srv. if ds_Net srv = ''udp'' then Some ''busy'' else None)
      [listener_of (Server DefaultConfig) ''tcp'' ''127.0.0.1:53'', listener_of (Server DefaultConfig) ''udp'' ''127.0.0.1:53'']) =
   Some [ListenErr ''udp'' ''127.0.0.1:53'' ''busy'']"
proof -
  let ?order = "[listener_of (Server DefaultConfig) ''tcp'' ''127.0.0.1:53'', listener_of (Server DefaultConfig) ''udp'' ''127.0.0.1:53'']"
  let ?s = "NewServer ((Server DefaultConfig)\<lparr>ListenAddrs := [''127.0.0.1:53'']\<rparr>)"
  let ?stop = "\<lambda>srv. if ds_Net srv = ''udp'' then Some ''busy'' else None"
  have "shutdown_order ?order ?s"
    by (simp add: shutdown_order_def NewServer_fields GetListenAddrs_def listener_of_def)
  from shutdown_reports_all [OF this, of ?stop] show ?thesis
    by (simp add: Shutdown_def Let_def listener_of_def)
qed

end
