(* ===== verification/Request_Server.thy ===== *)
theory Request_Server
  imports Go_Prelude "HOL-Library.Multiset"
begin

text \<open>
  Runs of a labelled step relation, and the contract between a process and the clients that send it
  requests: a step takes requests in, leaves some of them pending and writes replies, and every reply fits
  a request that was received.  What a reply fits may depend on the versions of a part of the state that
  have been in force so far (here: of the rule set).  What follows for every run is proved here once; the
  interpretation is in the theory of the process.
\<close>

section \<open>Runs\<close>

text \<open>A trace lists the steps of a run, each by its label and the state after it.\<close>

inductive steps :: "('s \<Rightarrow> 'l \<Rightarrow> 's \<Rightarrow> bool) \<Rightarrow> 's \<Rightarrow> ('l \<times> 's) list \<Rightarrow> 's \<Rightarrow> bool" for step s0 where
  run_init: "steps step s0 [] s0"
| run_step: "steps step s0 tr s \<Longrightarrow> step s l s' \<Longrightarrow> steps step s0 (tr @ [(l, s')]) s'"

definition labels_of :: "('l \<times> 's) list \<Rightarrow> 'l list" where
  "labels_of = map fst"

definition visited :: "'s \<Rightarrow> ('l \<times> 's) list \<Rightarrow> 's set" where
  "visited s0 tr = insert s0 (snd ` set tr)"

lemma labels_of_simps [simp]: "labels_of [] = []" "labels_of (tr @ [(l, s)]) = labels_of tr @ [l]"
  by (simp_all add: labels_of_def)

lemma visited_simps [simp]: "visited s0 [] = {s0}" "visited s0 (tr @ [(l, s)]) = insert s (visited s0 tr)"
  by (auto simp: visited_def)

lemma steps_invariant:
  assumes "steps step s0 tr s" "P [] s0" "\<And>tr s l s'. P tr s \<Longrightarrow> step s l s' \<Longrightarrow> P (tr @ [(l, s')]) s'"
  shows "P tr s"
  using assms(1,2) by induction (auto intro: assms(3))

section \<open>Serving requests\<close>

definition requests_of :: "('l \<Rightarrow> 'q list) \<Rightarrow> ('l \<times> 's) list \<Rightarrow> 'q list" where
  "requests_of request tr = concat (map request (labels_of tr))"

lemma requests_of_simps [simp]:
  "requests_of request [] = []" "requests_of request (tr @ [(l, s)]) = requests_of request tr @ request l"
  by (simp_all add: requests_of_def)

locale request_server =
  fixes step :: "'s \<Rightarrow> 'l \<Rightarrow> 's \<Rightarrow> bool"
    and inv :: "'v set \<Rightarrow> 's \<Rightarrow> bool"
    and version :: "'s \<Rightarrow> 'v"
    and request :: "'l \<Rightarrow> 'q list"
    and replies :: "'s \<Rightarrow> 'm list"
    and pending :: "'s \<Rightarrow> 'p list"
    and asked :: "'p \<Rightarrow> 'q"
    and qid :: "'q \<Rightarrow> 'i"
    and mid :: "'m \<Rightarrow> 'i"
    and fits :: "'v set \<Rightarrow> 'q \<Rightarrow> 'm \<Rightarrow> bool"
  assumes account: "inv vs s \<Longrightarrow> step s l s' \<Longrightarrow>
      \<exists>new. inv (insert (version s') vs) s' \<and> replies s' = replies s @ new \<and>
        mset (map mid new) + mset (map (qid \<circ> asked) (pending s')) =
          mset (map (qid \<circ> asked) (pending s)) + mset (map qid (request l)) \<and>
        (\<forall>m \<in> set new. \<exists>q \<in> set (request l) \<union> asked ` set (pending s). fits vs q m) \<and>
        asked ` set (pending s') \<subseteq> set (request l) \<union> asked ` set (pending s)"
    and fits_mono: "fits vs q m \<Longrightarrow> vs \<subseteq> vs' \<Longrightarrow> fits vs' q m"
begin

lemma run_account:
  assumes "steps step s0 tr s" "inv {version s0} s0" "replies s0 = []" "pending s0 = []"
  shows "inv (version ` visited s0 tr) s \<and>
    mset (map mid (replies s)) + mset (map (qid \<circ> asked) (pending s)) = mset (map qid (requests_of request tr)) \<and>
    (\<forall>m \<in> set (replies s). \<exists>q \<in> set (requests_of request tr). fits (version ` visited s0 tr) q m) \<and>
    asked ` set (pending s) \<subseteq> set (requests_of request tr)"
  using assms
proof induction
  case run_init
  then show ?case by simp
next
  case (run_step tr s l s')
  let ?vs = "version ` visited s0 tr" and ?vs' = "version ` visited s0 (tr @ [(l, s')])"
  have IH: "inv ?vs s" "mset (map mid (replies s)) + mset (map (qid \<circ> asked) (pending s)) = mset (map qid (requests_of request tr))"
    "\<forall>m \<in> set (replies s). \<exists>q \<in> set (requests_of request tr). fits ?vs q m" "asked ` set (pending s) \<subseteq> set (requests_of request tr)"
    using run_step.IH [OF run_step.prems] by blast+
  obtain new where st: "inv (insert (version s') ?vs) s'" "replies s' = replies s @ new"
    "mset (map mid new) + mset (map (qid \<circ> asked) (pending s')) =
      mset (map (qid \<circ> asked) (pending s)) + mset (map qid (request l))"
    "\<forall>m \<in> set new. \<exists>q \<in> set (request l) \<union> asked ` set (pending s). fits ?vs q m"
    "asked ` set (pending s') \<subseteq> set (request l) \<union> asked ` set (pending s)"
    using account [OF IH(1) run_step.hyps(2)] by (elim exE conjE)
  have known: "set (request l) \<union> asked ` set (pending s) \<subseteq> set (requests_of request (tr @ [(l, s')]))"
    using IH(4) by auto
  have fit: "\<exists>q \<in> set (requests_of request (tr @ [(l, s')])). fits ?vs' q m" if "m \<in> set (replies s')" for m
  proof -
    have "m \<in> set (replies s) \<or> m \<in> set new" using that st(2) by auto
    then have "\<exists>q \<in> set (requests_of request (tr @ [(l, s')])). fits ?vs q m"
    proof
      assume "m \<in> set (replies s)"
      with IH(3) have "\<exists>q \<in> set (requests_of request tr). fits ?vs q m" by (rule bspec)
      then show ?thesis by auto
    next
      assume "m \<in> set new"
      with st(4) have "\<exists>q \<in> set (request l) \<union> asked ` set (pending s). fits ?vs q m" by (rule bspec)
      then show ?thesis using known by blast
    qed
    then show ?thesis using fits_mono [of ?vs _ m ?vs'] by auto
  qed
  have ids: "mset (map mid (replies s')) + mset (map (qid \<circ> asked) (pending s')) = mset (map qid (requests_of request (tr @ [(l, s')])))"
    using IH(2) st(3) unfolding st(2) by (simp add: add.assoc)
  have "inv ?vs' s'" using st(1) by simp
  then show ?case by (intro conjI ballI ids fit order_trans [OF st(5) known])
qed

end

end
