(* ===== verification/Daemon.thy ===== *)
theory Daemon
  imports Handler_Safety Dns_Server Request_Server
begin

text \<open>
  \<^verbatim>\<open>cmd/tuxdnshole/main.go\<close> and \<^verbatim>\<open>Engine.StartAutoUpdate\<close>: how the process starts, and the steps it takes
  while it runs.  \<open>daemon_step\<close> is a step relation on the whole state, one rule for each thing that can
  happen: a listener starts or fails, a query arrives, a query's upstream answer is there, SIGHUP or the
  update ticker reloads the rules, a termination signal arrives, the shutdown completes.  Between the two
  phases of a query any other step may happen, so the rules interleave queries, reloads and shutdown.  The
  exchanges of a parallel query that lost the race end in steps of their own (\<open>goroutine_end\<close>), and
  the world outside, with its clock and the network, may change at any time between two steps (\<open>elapse\<close>).
  Each phase of a query, and a reload (which the engine's mutex serialises and which takes effect by one
  atomic store), is one step.
\<close>

section \<open>Flags, configuration path, log level\<close>

record flags =
  fl_config :: string
  fl_version :: bool
  fl_v :: bool
  fl_debug :: bool
  fl_test :: bool

definition candidates :: "string list" where
  "candidates = [''configs/config.yaml'', ''configs/config.example.yaml'', ''/etc/tuxdnshole/config.yaml'']"

definition resolve_path :: "(string \<Rightarrow> bool) \<Rightarrow> string \<Rightarrow> string" where
  "resolve_path stat path =
     (if path = [] then (case find stat candidates of Some c \<Rightarrow> c | None \<Rightarrow> path) else path)"

definition log_level_of :: "(string \<Rightarrow> string) \<Rightarrow> bool \<Rightarrow> opsec_config \<Rightarrow> log_level" where
  "log_level_of ul debug opsec =
     (if debug \<or> to_lower ul (LogLevel opsec) = ''debug'' then LevelDebug
      else if to_lower ul (LogLevel opsec) = ''warn'' then LevelWarn
      else if to_lower ul (LogLevel opsec) = ''error'' then LevelError
      else LevelInfo)"

section \<open>Port conflicts\<close>

text \<open>
  An error of a bind: a \<^verbatim>\<open>*net.OpError\<close> (whether its inner error is \<^verbatim>\<open>EADDRINUSE\<close>, and the inner text) or
  any other error (its text).  The two messages of \<^verbatim>\<open>formatPortConflictError\<close> are constructors.
\<close>

datatype bind_err = OpError bool string | OtherError string

datatype port_err = AddressInUse string string | BindFailed string string bind_err

definition formatPortConflictError :: "string \<Rightarrow> string \<Rightarrow> bind_err \<Rightarrow> port_err" where
  "formatPortConflictError proto addr err =
     (let isAddrInUse =
            (case err of
               OpError inUse inner \<Rightarrow> inUse \<or> contains_str inner ''address already in use''
             | OtherError t \<Rightarrow> contains_str t ''address already in use'')
      in if isAddrInUse then AddressInUse proto addr else BindFailed proto addr err)"

fun checkPortAvailability :: "(string \<Rightarrow> string \<Rightarrow> bind_err option) \<Rightarrow> string list \<Rightarrow> port_err option" where
  "checkPortAvailability bind [] = None"
| "checkPortAvailability bind (addr # addrs) =
     (case bind ''udp'' addr of
        Some err \<Rightarrow> Some (formatPortConflictError ''UDP'' addr err)
      | None \<Rightarrow>
          (case bind ''tcp'' addr of
             Some err \<Rightarrow> Some (formatPortConflictError ''TCP'' addr err)
           | None \<Rightarrow> checkPortAvailability bind addrs))"

section \<open>State\<close>

datatype status = Running | Stopping | Exited int

record ('w, 'e, 're) daemon =
  d_handler :: "'re handler"
  d_io :: "('w, 'e) io"
  d_level :: log_level
  d_server :: server
  d_starting :: "(string \<times> dns_server) list"
  d_active :: "(string \<times> dns_server) list"
  d_updates :: bool
  d_cancelled :: bool
  d_status :: status
  d_inflight :: "(msg \<times> msg) list"

section \<open>Start\<close>

text \<open>
  What \<^verbatim>\<open>main\<close> reads from its surroundings: which files exist, their contents, the YAML decoder, which
  addresses can be bound, and the texts of errors.
\<close>

record 'e boot_env =
  be_stat :: "string \<Rightarrow> bool"
  be_read :: "string \<Rightarrow> string option"
  be_unmarshal :: "string \<Rightarrow> config \<Rightarrow> config option"
  be_bind :: "string \<Rightarrow> string \<Rightarrow> bind_err option"
  be_listen_text :: "'e listen_err list \<Rightarrow> string"

datatype printout = Version_Line | Banner | Config_Error config_err | Config_Valid | Port_Conflict port_err

datatype ('e, 'd) outcome = Exit int "'e fw_err log_event list" | Serving 'd

fun new_err_text :: "new_err \<Rightarrow> string" where
  "new_err_text NoServers = ''no upstream servers configured''"
| "new_err_text NoResolvers = ''failed to initialize any upstream resolvers from config''"

definition log_line :: "log_level \<Rightarrow> string \<Rightarrow> (string \<times> 'x log_value) list \<Rightarrow> 'x log_event" where
  "log_line lvl text attrs = \<lparr>le_level = lvl, le_msg = text, le_attrs = attrs\<rparr>"

text \<open>\<^verbatim>\<open>StartAutoUpdate\<close> starts the update goroutine if the interval is positive.\<close>

definition StartAutoUpdate :: "'re engine \<Rightarrow> bool" where
  "StartAutoUpdate e \<longleftrightarrow> \<not> UpdateInterval (eng_cfg e) \<le> 0"

text \<open>Steps 3 to 10 of \<^verbatim>\<open>main\<close>, with a loaded configuration and free ports.\<close>

definition start_daemon ::
  "('w, 'c, 'e, 're) handler_env \<Rightarrow> flags \<Rightarrow> scheduler \<Rightarrow> 'w \<Rightarrow> string \<Rightarrow> config \<Rightarrow>
     ('e, ('w, 'e, 're) daemon) outcome" where
  "start_daemon env fl sched w resolvedPath cfg =
     (let listenAddrs = GetListenAddrs (Server cfg);
          level = log_level_of (he_lower env) (fl_debug fl) (OpSec cfg);
          log = [log_line LevelInfo ''starting TuxDNS-Hole daemon''
            [(''version'', V_Str ''1.0.0''), (''config_file'', V_Str resolvedPath), (''listen_addrs'', V_Strs listenAddrs),
             (''zero_log'', V_Bool (ZeroLog (OpSec cfg))), (''block_mode'', V_Str (BlockMode (Blocking cfg)))]];
          filterEngine = NewEngine (Blocking cfg);
          (filterEngine, updates, log) =
            (if Enabled (Blocking cfg) then
               (LoadRules (he_engine env) sched filterEngine, StartAutoUpdate filterEngine,
                log @ [log_line LevelInfo ''loading blocklists and whitelist...'' []])
             else (filterEngine, False, log))
      in case NewForwarder (he_net env) (Upstream cfg) of
           Inl e \<Rightarrow> Exit 1 (log @ [log_line LevelError ''failed to initialize upstream forwarder''
             [(''error'', V_Str (new_err_text e))]])
         | Inr fwd \<Rightarrow>
             (let cache = NewCache (CacheCfg cfg);
                  log = (if CacheEnabled (CacheCfg cfg) then
                           log @ [log_line LevelInfo ''DNS LRU cache initialized''
                             [(''max_size'', V_Int (Size (CacheCfg cfg))), (''min_ttl'', V_Int (MinTTL (CacheCfg cfg)))]]
                         else log);
                  dnsHandler = NewHandler cfg filterEngine fwd cache;
                  srv = NewServer (Server cfg);
                  log = log @ [log_line LevelInfo ''TuxDNS-Hole is ready to serve requests''
                    [(''listeners'', V_Strs listenAddrs)]]
              in Serving
                   \<lparr>d_handler = dnsHandler, d_io = \<lparr>io_world = w, io_log = log, io_written = []\<rparr>, d_level = level,
                    d_server = srv, d_starting = (case listeners srv of Some ls \<Rightarrow> ls | None \<Rightarrow> []), d_active = [],
                    d_updates = updates, d_cancelled = False, d_status = Running, d_inflight = []\<rparr>))"

definition main ::
  "'e boot_env \<Rightarrow> ('w, 'c, 'e, 're) handler_env \<Rightarrow> flags \<Rightarrow> scheduler \<Rightarrow> 'w \<Rightarrow>
     printout list \<times> ('e, ('w, 'e, 're) daemon) outcome" where
  "main be env fl sched w =
     (if fl_version fl \<or> fl_v fl then ([Version_Line], Exit 0 [])
      else
        (let resolvedPath = resolve_path (be_stat be) (fl_config fl) in
         case Load (be_read be) (be_unmarshal be) resolvedPath of
           Inl e \<Rightarrow> ([Banner, Config_Error e], Exit 1 [])
         | Inr cfg \<Rightarrow>
             if fl_test fl then ([Banner, Config_Valid], Exit 0 [])
             else
               (case checkPortAvailability (be_bind be) (GetListenAddrs (Server cfg)) of
                  Some err \<Rightarrow> ([Banner, Port_Conflict err], Exit 1 [])
                | None \<Rightarrow> ([Banner], start_daemon env fl sched w resolvedPath cfg))))"

section \<open>Steps\<close>

definition log_io :: "'e fw_err log_event list \<Rightarrow> ('w, 'e) io \<Rightarrow> ('w, 'e) io" where
  "log_io es io = io\<lparr>io_log := io_log io @ es\<rparr>"

text \<open>
  A reload fetches the sources as they are then: the file system and the HTTP answers of the step, the
  rest of the environment being fixed.
\<close>

definition reload ::
  "('w, 'c, 'e, 're) handler_env \<Rightarrow> (string \<Rightarrow> reader option) \<Rightarrow> (string \<Rightarrow> http_result) \<Rightarrow> scheduler \<Rightarrow>
     're engine \<Rightarrow> 're engine" where
  "reload env fs http sched e = LoadRules ((he_engine env)\<lparr>ee_open := fs, ee_http := http\<rparr>) sched e"

datatype sig = SIGHUP | SIGINT | SIGTERM

fun sig_name :: "sig \<Rightarrow> string" where
  "sig_name SIGHUP = ''hangup''"
| "sig_name SIGINT = ''interrupt''"
| "sig_name SIGTERM = ''terminated''"

text \<open>The reaction of the signal goroutine to a signal, up to the call of \<^verbatim>\<open>Shutdown\<close>.\<close>

definition on_signal ::
  "('w, 'c, 'e, 're) handler_env \<Rightarrow> (string \<Rightarrow> reader option) \<Rightarrow> (string \<Rightarrow> http_result) \<Rightarrow> scheduler \<Rightarrow> sig \<Rightarrow>
     ('w, 'e, 're) daemon \<Rightarrow> ('w, 'e, 're) daemon" where
  "on_signal env fs http sched s d =
     (case s of
        SIGHUP \<Rightarrow>
          d\<lparr>d_io := log_io [log_line LevelInfo ''received SIGHUP, triggering live reload of blocklists...'' []] (d_io d),
            d_handler := (d_handler d)\<lparr>h_filter := reload env fs http sched (h_filter (d_handler d))\<rparr>\<rparr>
      | _ \<Rightarrow>
          d\<lparr>d_io := log_io [log_line LevelInfo ''received termination signal, initiating graceful shutdown...''
              [(''signal'', V_Str (sig_name s))]] (d_io d),
            d_cancelled := True, d_status := Stopping\<rparr>)"

text \<open>One tick of the update goroutine.\<close>

definition on_tick ::
  "('w, 'c, 'e, 're) handler_env \<Rightarrow> (string \<Rightarrow> reader option) \<Rightarrow> (string \<Rightarrow> http_result) \<Rightarrow> scheduler \<Rightarrow>
     ('w, 'e, 're) daemon \<Rightarrow> ('w, 'e, 're) daemon" where
  "on_tick env fs http sched d =
     d\<lparr>d_io := log_io [log_line LevelInfo ''starting scheduled blocklist update...'' []] (d_io d),
       d_handler := (d_handler d)\<lparr>h_filter := reload env fs http sched (h_filter (d_handler d))\<rparr>\<rparr>"

definition finish_shutdown ::
  "'e boot_env \<Rightarrow> (dns_server \<Rightarrow> 'e option) \<Rightarrow> dns_server list \<Rightarrow> ('w, 'e, 're) daemon \<Rightarrow> ('w, 'e, 're) daemon" where
  "finish_shutdown be stop order d =
     (let (errs, log) = Shutdown stop order;
          log = (case errs of
                   Some es \<Rightarrow> log @ [log_line LevelError ''error during server shutdown'' [(''error'', V_Str (be_listen_text be es))]]
                 | None \<Rightarrow> log)
      in d\<lparr>d_io := log_io log (d_io d), d_status := Exited 0\<rparr>)"

definition listener_failed ::
  "'e boot_env \<Rightarrow> string \<times> dns_server \<Rightarrow> 'e \<Rightarrow> ('w, 'e, 're) daemon \<Rightarrow> ('w, 'e, 're) daemon" where
  "listener_failed be l e d =
     (case Start [(l, Some e)] of
        Some err \<Rightarrow>
          d\<lparr>d_io := log_io [log_line LevelError ''fatal DNS server error'' [(''error'', V_Str (be_listen_text be [err]))]] (d_io d),
            d_status := Exited 1\<rparr>
      | None \<Rightarrow> d)"

datatype label =
    Listen
  | Receive msg
  | Complete msg
  | Signal sig
  | Tick
  | Updates_End
  | Shutdown_Done
  | Listen_Error
  | Goroutine_End
  | Elapse

inductive daemon_step ::
  "'e boot_env \<Rightarrow> ('w, 'c, 'e, 're) handler_env \<Rightarrow> ('w, 'e, 're) daemon \<Rightarrow> label \<Rightarrow> ('w, 'e, 're) daemon \<Rightarrow> bool"
  for be env where
  listen:
    "d_status d = Running \<Longrightarrow> d_starting d = ls @ l # ls' \<Longrightarrow>
       d' = d\<lparr>d_starting := ls @ ls', d_active := l # d_active d, d_io := log_io [start_event l] (d_io d)\<rparr> \<Longrightarrow>
       daemon_step be env d Listen d'"
| receive_done:
    "d_status d \<in> {Running, Stopping} \<Longrightarrow> d_active d \<noteq> [] \<Longrightarrow>
       serve_local env rand (Some r) (d_handler d, d_io d) = Some (Replied (h, io)) \<Longrightarrow>
       daemon_step be env d (Receive r) (d\<lparr>d_handler := h, d_io := io\<rparr>)"
| receive_pending:
    "d_status d \<in> {Running, Stopping} \<Longrightarrow> d_active d \<noteq> [] \<Longrightarrow>
       serve_local env rand (Some r) (d_handler d, d_io d) = Some (Pending r' req (h, io)) \<Longrightarrow>
       daemon_step be env d (Receive r) (d\<lparr>d_handler := h, d_io := io, d_inflight := (r', req) # d_inflight d\<rparr>)"
| complete:
    "d_status d \<in> {Running, Stopping} \<Longrightarrow> d_inflight d = qs @ (r, req) # qs' \<Longrightarrow> arrivals order (d_handler d) \<Longrightarrow>
       forward_step env order req (d_handler d, d_io d) = Some (res, s) \<Longrightarrow>
       after_forward env r req res s = Some (h, io) \<Longrightarrow>
       daemon_step be env d (Complete r) (d\<lparr>d_handler := h, d_io := io, d_inflight := qs @ qs'\<rparr>)"
| signal:
    "d_status d = Running \<Longrightarrow> daemon_step be env d (Signal s) (on_signal env fs http sched s d)"
| tick:
    "d_status d \<in> {Running, Stopping} \<Longrightarrow> d_updates d \<Longrightarrow> daemon_step be env d Tick (on_tick env fs http sched d)"
| updates_end:
    "d_status d \<in> {Running, Stopping} \<Longrightarrow> d_updates d \<Longrightarrow> d_cancelled d \<Longrightarrow>
       daemon_step be env d Updates_End (d\<lparr>d_updates := False\<rparr>)"
| shutdown_done:
    "d_status d = Stopping \<Longrightarrow> shutdown_order order (d_server d) \<Longrightarrow>
       daemon_step be env d Shutdown_Done (finish_shutdown be stop order d)"
| listen_error:
    "d_status d \<in> {Running, Stopping} \<Longrightarrow> l \<in> set (d_active d) \<Longrightarrow>
       daemon_step be env d Listen_Error (listener_failed be l e d)"
| goroutine_end:
    "d_status d \<in> {Running, Stopping} \<Longrightarrow> k < length (fw_running (h_forwarder (d_handler d))) \<Longrightarrow>
       finish_goroutine (he_net env) k (h_forwarder (d_handler d)) (io_world (d_io d)) = (f, w) \<Longrightarrow>
       daemon_step be env d Goroutine_End
         (d\<lparr>d_handler := (d_handler d)\<lparr>h_forwarder := f\<rparr>, d_io := (d_io d)\<lparr>io_world := w\<rparr>\<rparr>)"
| elapse:
    "d_status d \<in> {Running, Stopping} \<Longrightarrow> daemon_step be env d Elapse (d\<lparr>d_io := (d_io d)\<lparr>io_world := w\<rparr>\<rparr>)"

inductive_cases daemon_stepE: "daemon_step be env d l d'"

text \<open>A run is a sequence of labelled steps.\<close>

abbreviation daemon_run ::
  "'e boot_env \<Rightarrow> ('w, 'c, 'e, 're) handler_env \<Rightarrow> ('w, 'e, 're) daemon \<Rightarrow>
     (label \<times> ('w, 'e, 're) daemon) list \<Rightarrow> ('w, 'e, 're) daemon \<Rightarrow> bool" where
  "daemon_run be env \<equiv> steps (daemon_step be env)"

end
