(* ===== verification/Daemon_Properties.thy ===== *)
theory Daemon_Properties
  imports Daemon Handler_Properties
begin

text \<open>
  The properties of the whole process: its start establishes the invariant of the handler, and every
  step, in whatever order queries, reloads and signals interleave, keeps it and accounts for every query.
\<close>

section \<open>Invariant\<close>

text \<open>What no step changes of the handler: its configuration and null addresses.\<close>

definition keeps :: "'re handler \<Rightarrow> 're handler \<Rightarrow> bool" where
  "keeps h' h \<longleftrightarrow> h_cfg h' = h_cfg h \<and> h_zeroIPv4 h' = h_zeroIPv4 h \<and> h_zeroIPv6 h' = h_zeroIPv6 h"

lemma keeps_refl [simp]: "keeps h h"
  by (simp add: keeps_def)

lemma keeps_trans: "keeps h1 h2 \<Longrightarrow> keeps h2 h3 \<Longrightarrow> keeps h1 h3"
  by (simp add: keeps_def)

lemma keeps_setup: "same_setup h' h \<Longrightarrow> keeps h' h"
  by (simp add: keeps_def same_setup_def)

text \<open>
  A query in flight was not blocked when it was received, and what is to be sent for it is what the handler
  prepared.
\<close>

definition inflight_ok :: "('w, 'c, 'e, 're) handler_env \<Rightarrow> 're engine set \<Rightarrow> ('w, 'e, 're) daemon \<Rightarrow> bool" where
  "inflight_ok env es d \<longleftrightarrow>
     (\<forall>(r, req) \<in> set (d_inflight d). mQuestion r \<noteq> [] \<and> mQuestion req \<noteq> [] \<and>
        (\<exists>eng \<in> es. \<not> IsBlocked (he_engine env) eng (qname_of env r)) \<and>
        (\<exists>rand. prepareUpstreamQuery env rand (d_handler d) r = Some req))"

definition daemon_inv :: "('w, 'c, 'e, 're) handler_env \<Rightarrow> 're engine set \<Rightarrow> ('w, 'e, 're) daemon \<Rightarrow> bool" where
  "daemon_inv env es d \<longleftrightarrow> handler_inv env es (d_handler d) \<and> inflight_ok env es d"

lemma prepare_keeps: "keeps h' h \<Longrightarrow> prepareUpstreamQuery env rand h' r = prepareUpstreamQuery env rand h r"
  by (simp add: keeps_def prepareUpstreamQuery_def edns_step_def Let_def)

lemma inflight_ok_step:
  assumes "inflight_ok env es d" "es \<subseteq> es'" "set (d_inflight d') \<subseteq> set (d_inflight d)" "keeps (d_handler d') (d_handler d)"
  shows "inflight_ok env es' d'"
  unfolding inflight_ok_def
proof (intro ballI)
  fix q assume "q \<in> set (d_inflight d')"
  then have "q \<in> set (d_inflight d)" using assms(3) by blast
  with assms(1) [unfolded inflight_ok_def]
  have "case q of (r, req) \<Rightarrow> mQuestion r \<noteq> [] \<and> mQuestion req \<noteq> [] \<and>
      (\<exists>eng \<in> es. \<not> IsBlocked (he_engine env) eng (qname_of env r)) \<and>
      (\<exists>rand. prepareUpstreamQuery env rand (d_handler d) r = Some req)" by (rule bspec)
  then show "case q of (r, req) \<Rightarrow> mQuestion r \<noteq> [] \<and> mQuestion req \<noteq> [] \<and>
      (\<exists>eng \<in> es'. \<not> IsBlocked (he_engine env) eng (qname_of env r)) \<and>
      (\<exists>rand. prepareUpstreamQuery env rand (d_handler d') r = Some req)"
    using assms(2) by (cases q) (auto simp: prepare_keeps [OF assms(4)])
qed

text \<open>A reply to a message that a client sent: FORMERR if it has no question.\<close>

definition reply_for :: "('w, 'c, 'e, 're) handler_env \<Rightarrow> 're engine set \<Rightarrow> 're handler \<Rightarrow> msg \<Rightarrow> msg \<Rightarrow> bool" where
  "reply_for env es h r reply \<longleftrightarrow>
     (if mQuestion r = [] then reply_to r RcodeFormatError reply else good_reply env es h r reply)"

lemma reply_for_id: "reply_for env es h r reply \<Longrightarrow> mId reply = mId r"
  by (auto simp: reply_for_def reply_to_def good_reply_def split: if_splits)

lemma sinkhole_keeps: "keeps h' h \<Longrightarrow> sinkhole_reply env h' r q = sinkhole_reply env h r q"
  by (simp add: keeps_def sinkhole_reply_def Let_def)

lemma reply_for_keeps:
  assumes "reply_for env es h' r reply" "keeps h' h"
  shows "reply_for env es h r reply"
  using assms(1) sinkhole_keeps [OF assms(2), of env r "hd (mQuestion r)"] assms(2)
  by (auto simp: reply_for_def good_reply_def keeps_def)

lemma reply_for_mono: "reply_for env es h r reply \<Longrightarrow> es \<subseteq> es' \<Longrightarrow> reply_for env es' h r reply"
  by (auto simp: reply_for_def good_reply_def split: if_splits)

text \<open>The rule set in force.\<close>

definition rule_set :: "('w, 'e, 're) daemon \<Rightarrow> 're engine" where
  "rule_set d = h_filter (d_handler d)"

lemma rule_set_inv: "daemon_inv env es d \<Longrightarrow> rule_set d \<in> es"
  by (simp add: daemon_inv_def handler_inv_def rule_set_def)

text \<open>
  The account of one step: the rule sets, the replies it writes and the queries it leaves in flight.
\<close>

definition received :: "label \<Rightarrow> msg list" where
  "received l = (case l of Receive r \<Rightarrow> [r] | _ \<Rightarrow> [])"

definition reloads :: "label \<Rightarrow> bool" where
  "reloads l \<longleftrightarrow> l = Signal SIGHUP \<or> l = Tick"

definition step_account ::
  "('w, 'c, 'e, 're) handler_env \<Rightarrow> 're engine set \<Rightarrow> ('w, 'e, 're) daemon \<Rightarrow> label \<Rightarrow> ('w, 'e, 're) daemon \<Rightarrow>
     're engine set \<Rightarrow> msg list \<Rightarrow> bool" where
  "step_account env es d l d' es' new \<longleftrightarrow>
     es' = insert (rule_set d') es \<and> (reloads l \<or> rule_set d' = rule_set d) \<and> daemon_inv env es' d' \<and> keeps (d_handler d') (d_handler d) \<and>
     io_written (d_io d') = io_written (d_io d) @ new \<and>
     mset (map mId new) + mset (map (mId \<circ> fst) (d_inflight d')) =
       mset (map (mId \<circ> fst) (d_inflight d)) + mset (map mId (received l)) \<and>
     (\<forall>reply \<in> set new. \<exists>r \<in> set (received l) \<union> fst ` set (d_inflight d). reply_for env es (d_handler d) r reply) \<and>
     fst ` set (d_inflight d') \<subseteq> set (received l) \<union> fst ` set (d_inflight d)"

lemma log_io_frame [simp]: "io_written (log_io es io) = io_written io" "io_world (log_io es io) = io_world io"
  by (simp_all add: log_io_def)

lemma account_quiet:
  assumes "daemon_inv env es d" "d_handler d' = d_handler d" "io_written (d_io d') = io_written (d_io d)"
    "d_inflight d' = d_inflight d" "received l = []"
  shows "step_account env es d l d' es []"
proof -
  have "daemon_inv env es d'" using assms by (simp add: daemon_inv_def inflight_ok_def)
  moreover have "rule_set d' = rule_set d" using assms(2) by (simp add: rule_set_def)
  ultimately show ?thesis
    using assms insert_absorb [OF rule_set_inv [OF assms(1)]] by (simp add: step_account_def)
qed

lemma account_reload:
  assumes "daemon_inv env es d" "d_handler d' = (d_handler d)\<lparr>h_filter := eng\<rparr>"
    "io_written (d_io d') = io_written (d_io d)" "d_inflight d' = d_inflight d" "received l = []" "reloads l"
  shows "step_account env es d l d' (insert eng es) []"
proof -
  have "keeps (d_handler d') (d_handler d)" by (simp add: assms(2) keeps_def)
  then show ?thesis
    using assms handler_inv_reload [of env es "d_handler d" eng] inflight_ok_step [of env es d "insert eng es" d']
    by (auto simp: step_account_def daemon_inv_def rule_set_def)
qed

lemma account_pool:
  assumes "daemon_inv env es d" "same_setup (d_handler d') (d_handler d)" "h_cache (d_handler d') = h_cache (d_handler d)"
    "io_written (d_io d') = io_written (d_io d)" "d_inflight d' = d_inflight d" "received l = []"
  shows "step_account env es d l d' es []"
proof -
  have "inflight_ok env es d'"
    using assms(1,5) keeps_setup [OF assms(2)] by - (rule inflight_ok_step [of env es d es], simp_all add: daemon_inv_def)
  then have "daemon_inv env es d'"
    using assms(1) handler_inv_cong [OF assms(2,3), of env es] by (simp add: daemon_inv_def)
  moreover have "rule_set d' = rule_set d" using assms(2) by (simp add: rule_set_def same_setup_def)
  ultimately show ?thesis
    using assms(4-6) keeps_setup [OF assms(2)] insert_absorb [OF rule_set_inv [OF assms(1)]]
    by (simp add: step_account_def)
qed

lemma received_simps [simp]:
  "received (Receive r) = [r]" "received (Complete r) = []" "received Listen = []" "received (Signal s) = []"
  "received Tick = []" "received Goroutine_End = []" "received Updates_End = []" "received Shutdown_Done = []" "received Listen_Error = []"
  "received Elapse = []"
  by (simp_all add: received_def)

lemma serve_local_malformed:
  assumes "dns_ok (he_lib env)" "mQuestion r = []"
  obtains m where "serve_local env rand (Some r) (h, io) = Some (Replied (h, WriteMsg m io))"
    "reply_to r RcodeFormatError m"
proof -
  obtain m where "SetRcode (he_lib env) new_msg (Some r) RcodeFormatError = Some m"
    "reply_to r RcodeFormatError m"
    using dns_okD(3) [OF assms(1)] unfolding reply_ok_def by blast
  then show ?thesis using that assms(2) by (simp add: serve_local_def)
qed

lemma account_reply:
  assumes "daemon_inv env es d" "answered env es r (d_handler d) (d_io d) h io" "mQuestion r \<noteq> []"
    "mset (d_inflight d) = mset qs + (if l = Receive r then {#} else {#(r, req)#})"
    "received l = (if l = Receive r then [r] else [])"
  shows "\<exists>new. step_account env es d l (d\<lparr>d_handler := h, d_io := io, d_inflight := qs\<rparr>) es new"
proof -
  obtain reply where reply: "io_written io = io_written (d_io d) @ [reply]" "good_reply env es (d_handler d) r reply"
    "handler_inv env es h" "same_setup h (d_handler d)"
    using assms(2) by (auto simp: answered_def)
  have id: "mId reply = mId r" using reply(2) by (simp add: good_reply_def)
  have sub: "set qs \<subseteq> set (d_inflight d)" "l = Receive r \<or> (r, req) \<in> set (d_inflight d)"
    using arg_cong [OF assms(4), of set_mset] by (auto split: if_splits)
  have inflight: "inflight_ok env es (d\<lparr>d_handler := h, d_io := io, d_inflight := qs\<rparr>)"
    using sub(1) assms(1) keeps_setup [OF reply(4)] by - (rule inflight_ok_step [of env es d es], simp_all add: daemon_inv_def)
  have ids: "mset (map mId [reply]) + mset (map (mId \<circ> fst) qs) =
      mset (map (mId \<circ> fst) (d_inflight d)) + mset (map mId (received l))"
    using arg_cong [OF assms(4), of "image_mset (mId \<circ> fst)"] assms(5) id by auto
  have "r \<in> set (received l) \<union> fst ` set (d_inflight d)"
    using sub(2) assms(5) by force
  moreover have "reply_for env es (d_handler d) r reply" using reply(2) assms(3) by (simp add: reply_for_def)
  ultimately have fit: "\<forall>m \<in> set [reply]. \<exists>r \<in> set (received l) \<union> fst ` set (d_inflight d). reply_for env es (d_handler d) r m"
    by auto
  have "fst ` set qs \<subseteq> set (received l) \<union> fst ` set (d_inflight d)" using sub(1) by auto
  moreover have rules: "h_filter h = rule_set d" using reply(4) by (simp add: same_setup_def rule_set_def)
  ultimately have "step_account env es d l (d\<lparr>d_handler := h, d_io := io, d_inflight := qs\<rparr>) es [reply]"
    unfolding step_account_def daemon_inv_def
    using reply(1,3) insert_absorb [OF rule_set_inv [OF assms(1)]] keeps_setup [OF reply(4)] inflight ids fit
    by (intro conjI) (simp_all add: rule_set_def)
  then show ?thesis ..
qed

lemma account_receive_done:
  assumes "dns_ok (he_lib env)" "daemon_inv env es d"
    "serve_local env rand (Some r) (d_handler d, d_io d) = Some (Replied (h, io))"
  shows "\<exists>new. step_account env es d (Receive r) (d\<lparr>d_handler := h, d_io := io\<rparr>) es new"
proof (cases "mQuestion r = []")
  case True
  obtain m where "serve_local env rand (Some r) (d_handler d, d_io d) = Some (Replied (d_handler d, WriteMsg m (d_io d)))"
    "reply_to r RcodeFormatError m"
    by (rule serve_local_malformed [OF assms(1) True])
  then show ?thesis
    using assms(2,3) True inflight_ok_step [of env es d es "d\<lparr>d_handler := h, d_io := io\<rparr>"]
      insert_absorb [OF rule_set_inv [OF assms(2)]]
    by (intro exI [of _ "[m]"]) (auto simp: step_account_def daemon_inv_def rule_set_def reply_for_def reply_to_def)
next
  case False
  have inv: "handler_inv env es (d_handler d)" using assms(2) by (simp add: daemon_inv_def)
  from assms(1) inv False have "answered env es r (d_handler d) (d_io d) h io"
    using assms(3) by (cases rule: serve_local_cases [where rand = rand and io = "d_io d"]) auto
  from account_reply [OF assms(2) this False, of "d_inflight d" "Receive r"] show ?thesis by simp
qed

lemma account_receive_pending:
  assumes "dns_ok (he_lib env)" "daemon_inv env es d"
    "serve_local env rand (Some r) (d_handler d, d_io d) = Some (Pending r' req (h, io))"
  shows "step_account env es d (Receive r)
    (d\<lparr>d_handler := h, d_io := io, d_inflight := (r', req) # d_inflight d\<rparr>) es []"
proof -
  have ne: "mQuestion r \<noteq> []"
  proof
    assume "mQuestion r = []"
    then obtain m where "serve_local env rand (Some r) (d_handler d, d_io d) = Some (Replied (d_handler d, WriteMsg m (d_io d)))"
      using serve_local_malformed [OF assms(1)] by metis
    with assms(3) show False by simp
  qed
  have inv: "handler_inv env es (d_handler d)" using assms(2) by (simp add: daemon_inv_def)
  from assms(1) inv ne obtain c where c: "r' = r" "h = (d_handler d)\<lparr>h_cache := c\<rparr>" "io = d_io d"
    "prepareUpstreamQuery env rand (d_handler d) r = Some req" "handler_inv env es h" "\<not> blocked env (d_handler d) r"
    using assms(3) by (cases rule: serve_local_cases [where rand = rand and io = "d_io d"]) auto
  have "keeps h (d_handler d)" by (simp add: c(2) keeps_def)
  then have "inflight_ok env es (d\<lparr>d_handler := h, d_io := io\<rparr>)"
    using assms(2) by - (rule inflight_ok_step [of env es d es], simp_all add: daemon_inv_def)
  moreover have "\<exists>eng \<in> es. \<not> IsBlocked (he_engine env) eng (qname_of env r)"
    using c(6) inv by (auto simp: blocked_def handler_inv_def)
  moreover have "prepareUpstreamQuery env rand h r = Some req" using c(2,4) by simp
  ultimately have "inflight_ok env es (d\<lparr>d_handler := h, d_io := io, d_inflight := (r', req) # d_inflight d\<rparr>)"
    using ne prepare_question [OF assms(1) ne c(4)] c(1) by (auto simp: inflight_ok_def)
  then show ?thesis
    unfolding step_account_def daemon_inv_def
    using c(1,2,3,5) \<open>keeps h (d_handler d)\<close> insert_absorb [OF rule_set_inv [OF assms(2)]]
    by (intro conjI) (auto simp: rule_set_def)
qed

lemma complete_answered:
  assumes "dns_ok (he_lib env)" "daemon_inv env es d" "(r, req) \<in> set (d_inflight d)" "arrivals order (d_handler d)"
  obtains res s h io where "forward_step env order req (d_handler d, d_io d) = Some (res, s)"
    "after_forward env r req res s = Some (h, io)" "answered env es r (d_handler d) (d_io d) h io"
proof -
  let ?h = "d_handler d" and ?io = "d_io d"
  have inv: "handler_inv env es ?h" and req: "mQuestion req \<noteq> []"
    using assms(2,3) by (auto simp: daemon_inv_def inflight_ok_def)
  obtain resp rtt err f w where fw:
    "forward_step env order req (?h, ?io) = Some ((resp, rtt, err), ?h\<lparr>h_forwarder := f\<rparr>, ?io\<lparr>io_world := w\<rparr>)"
    "resp = None \<longleftrightarrow> err \<noteq> None" "same_setup (?h\<lparr>h_forwarder := f\<rparr>) ?h"
    using forward_step_result [OF inv assms(4,1)] by metis
  obtain h io where af: "after_forward env r req (resp, rtt, err) (?h\<lparr>h_forwarder := f\<rparr>, ?io\<lparr>io_world := w\<rparr>) = Some (h, io)"
    "answered env es r (?h\<lparr>h_forwarder := f\<rparr>) (?io\<lparr>io_world := w\<rparr>) h io"
    using after_forward_answered [OF assms(1) same_setup_forwarder_world [OF inv fw(3)] req fw(2)] by metis
  have "answered env es r ?h ?io h io" using answered_from [OF af(2) fw(3)] by simp
  then show ?thesis using that fw(1) af(1) by blast
qed

lemma account_complete:
  assumes "dns_ok (he_lib env)" "daemon_inv env es d" "d_inflight d = qs @ (r, req) # qs'" "arrivals order (d_handler d)"
    "forward_step env order req (d_handler d, d_io d) = Some (res, s)" "after_forward env r req res s = Some (h, io)"
  shows "\<exists>new. step_account env es d (Complete r) (d\<lparr>d_handler := h, d_io := io, d_inflight := qs @ qs'\<rparr>) es new"
proof -
  have q: "(r, req) \<in> set (d_inflight d)" by (simp add: assms(3))
  then have ne: "mQuestion r \<noteq> []" using assms(2) by (auto simp: daemon_inv_def inflight_ok_def)
  obtain res1 s1 h1 io1 where "forward_step env order req (d_handler d, d_io d) = Some (res1, s1)"
    "after_forward env r req res1 s1 = Some (h1, io1)" "answered env es r (d_handler d) (d_io d) h1 io1"
    by (rule complete_answered [OF assms(1,2) q assms(4)])
  then have "answered env es r (d_handler d) (d_io d) h io" using assms(5,6) by simp
  from account_reply [OF assms(2) this ne, of "qs @ qs'" "Complete r" req] show ?thesis
    by (simp add: assms(3))
qed

lemma step_accounts:
  assumes "daemon_step be env d l d'" "dns_ok (he_lib env)" "daemon_inv env es d"
  shows "\<exists>es' new. step_account env es d l d' es' new"
  using assms(1)
proof cases
  case (listen ls l' ls')
  then show ?thesis using account_quiet [OF assms(3), of d' l] by auto
next
  case (receive_done rand r h io)
  then show ?thesis using account_receive_done [OF assms(2,3)] by blast
next
  case (receive_pending rand r r' req h io)
  then show ?thesis using account_receive_pending [OF assms(2,3)] by blast
next
  case (complete qs r req qs' order res s h io)
  then show ?thesis using account_complete [OF assms(2,3)] by blast
next
  case (signal s fs http sched)
  show ?thesis
  proof (cases s)
    case SIGHUP
    then show ?thesis
      using account_reload [OF assms(3), of d' _ l] signal by (auto simp: on_signal_def reloads_def)
  qed (use account_quiet [OF assms(3), of d' l] signal in \<open>auto simp: on_signal_def\<close>)
next
  case (tick fs http sched)
  then show ?thesis
    using account_reload [OF assms(3), of d' _ l] by (auto simp: on_tick_def reloads_def)
next
  case updates_end
  then show ?thesis using account_quiet [OF assms(3), of d' l] by auto
next
  case (shutdown_done order stop)
  then show ?thesis
    using account_quiet [OF assms(3), of d' l] by (auto simp: finish_shutdown_def Let_def case_prod_beta)
next
  case (listen_error l' e)
  then have "step_account env es d l d' es []"
    using account_quiet [OF assms(3), of d' l] by (simp add: listener_failed_def split: option.split)
  then show ?thesis by blast
next
  case (goroutine_end k f w)
  have "same_setup (d_handler d') (d_handler d)" "h_cache (d_handler d') = h_cache (d_handler d)"
    using finish_goroutine_pool [of "he_net env" k "h_forwarder (d_handler d)" "io_world (d_io d)"] goroutine_end
    by (simp_all add: same_setup_def)
  then have "step_account env es d l d' es []"
    by (rule account_pool [OF assms(3)]) (simp_all add: goroutine_end)
  then show ?thesis by blast
next
  case (elapse w)
  then show ?thesis using account_quiet [OF assms(3), of d' l] by auto
qed

text \<open>Where a query in flight comes from.\<close>

lemma inflight_origin:
  assumes "daemon_step be env d l d'" "dns_ok (he_lib env)" "daemon_inv env es d" "(r, req) \<in> set (d_inflight d')"
  shows "(r, req) \<in> set (d_inflight d) \<or>
    l = Receive r \<and> \<not> IsBlocked (he_engine env) (rule_set d) (qname_of env r)"
  using assms(1)
proof cases
  case (receive_pending rand r0 r' req' h io)
  have ne: "mQuestion r0 \<noteq> []"
  proof
    assume "mQuestion r0 = []"
    then obtain m where "serve_local env rand (Some r0) (d_handler d, d_io d) = Some (Replied (d_handler d, WriteMsg m (d_io d)))"
      using serve_local_malformed [OF assms(2)] by metis
    with receive_pending show False by simp
  qed
  have inv: "handler_inv env es (d_handler d)" using assms(3) by (simp add: daemon_inv_def)
  from assms(2) inv ne have "r' = r0 \<and> \<not> blocked env (d_handler d) r0"
    using receive_pending by (cases rule: serve_local_cases [where rand = rand and io = "d_io d"]) auto
  then show ?thesis using assms(4) receive_pending by (auto simp: blocked_def rule_set_def)
next
  case (signal s fs http sched)
  then show ?thesis using assms(4) by (cases s) (simp_all add: on_signal_def)
qed (use assms(4) in \<open>auto simp: on_tick_def finish_shutdown_def listener_failed_def Let_def case_prod_beta split: option.splits\<close>)

section \<open>Runs\<close>

text \<open>A state in which no query has been received yet.\<close>

definition fresh :: "('w, 'e, 're) daemon \<Rightarrow> bool" where
  "fresh d \<longleftrightarrow> io_written (d_io d) = [] \<and> d_inflight d = []"

text \<open>The messages received in a run, and the rule sets that were in force.\<close>

definition queries :: "(label \<times> ('w, 'e, 're) daemon) list \<Rightarrow> msg list" where
  "queries = requests_of received"

definition in_force :: "('w, 'e, 're) daemon \<Rightarrow> (label \<times> ('w, 'e, 're) daemon) list \<Rightarrow> 're engine set" where
  "in_force d0 tr = rule_set ` visited d0 tr"

text \<open>
  The process as a server of requests, with the replies and the setup measured against the handler \<open>h0\<close> it
  started with.
\<close>

definition serving_inv ::
  "('w, 'c, 'e, 're) handler_env \<Rightarrow> 're handler \<Rightarrow> 're engine set \<Rightarrow> ('w, 'e, 're) daemon \<Rightarrow> bool" where
  "serving_inv env h0 es d \<longleftrightarrow> dns_ok (he_lib env) \<and> daemon_inv env es d \<and> keeps (d_handler d) h0"

interpretation served: request_server "daemon_step be env" "serving_inv env h0" rule_set received
  "\<lambda>d. io_written (d_io d)" d_inflight fst mId mId "\<lambda>es. reply_for env es h0"
proof (unfold_locales, goal_cases)
  case (1 es d l d')
  then have inv: "dns_ok (he_lib env)" "daemon_inv env es d" "keeps (d_handler d) h0" by (simp_all add: serving_inv_def)
  obtain es' new where st: "step_account env es d l d' es' new" using step_accounts [OF 1(2) inv(1,2)] by blast
  then have "keeps (d_handler d') (d_handler d)" by (simp add: step_account_def)
  from keeps_trans [OF this inv(3)] have "serving_inv env h0 (insert (rule_set d') es) d'"
    using inv(1) st by (auto simp: serving_inv_def step_account_def)
  moreover have "\<forall>m \<in> set new. \<exists>r \<in> set (received l) \<union> fst ` set (d_inflight d). reply_for env es h0 r m"
    using st reply_for_keeps [OF _ inv(3)] unfolding step_account_def by blast
  ultimately show ?case
    using st unfolding step_account_def by (intro exI [of _ new]) simp
next
  case (2 es r m es')
  then show ?case by (rule reply_for_mono)
qed

lemma run_accounts:
  assumes "daemon_run be env d0 tr d" "dns_ok (he_lib env)" "fresh d0" "daemon_inv env {rule_set d0} d0"
  shows "daemon_inv env (in_force d0 tr) d" "keeps (d_handler d) (d_handler d0)"
    "mset (map mId (io_written (d_io d))) + mset (map (mId \<circ> fst) (d_inflight d)) = mset (map mId (queries tr))"
    "\<forall>reply \<in> set (io_written (d_io d)). \<exists>r \<in> set (queries tr). reply_for env (in_force d0 tr) (d_handler d0) r reply"
    "fst ` set (d_inflight d) \<subseteq> set (queries tr)"
proof -
  have "serving_inv env (d_handler d0) {rule_set d0} d0"
    using assms(2,4) by (simp add: serving_inv_def)
  from served.run_account [OF assms(1) this] assms(3)
  show "daemon_inv env (in_force d0 tr) d" "keeps (d_handler d) (d_handler d0)"
    "mset (map mId (io_written (d_io d))) + mset (map (mId \<circ> fst) (d_inflight d)) = mset (map mId (queries tr))"
    "\<forall>reply \<in> set (io_written (d_io d)). \<exists>r \<in> set (queries tr). reply_for env (in_force d0 tr) (d_handler d0) r reply"
    "fst ` set (d_inflight d) \<subseteq> set (queries tr)"
    unfolding fresh_def queries_def serving_inv_def in_force_def by blast+
qed

text \<open>Only a reload changes the rules.\<close>

lemma rules_unchanged:
  assumes "daemon_run be env d0 tr d" "dns_ok (he_lib env)" "fresh d0" "daemon_inv env {rule_set d0} d0"
    "\<not> list_ex reloads (labels_of tr)"
  shows "in_force d0 tr = {rule_set d0}"
  using assms
proof induction
  case (run_step tr d l d')
  have "daemon_inv env (in_force d0 tr) d" by (rule run_accounts [OF run_step.hyps(1) run_step.prems(1-3)])
  then obtain es' new where "step_account env (in_force d0 tr) d l d' es' new"
    using step_accounts [OF run_step.hyps(2) run_step.prems(1)] by blast
  then have "rule_set d' = rule_set d" using run_step.prems(4) by (auto simp: step_account_def)
  moreover have "in_force d0 tr = {rule_set d0}" using run_step by simp
  moreover have "rule_set d \<in> in_force d0 tr" using rule_set_inv [OF \<open>daemon_inv env (in_force d0 tr) d\<close>] .
  ultimately show ?case by (simp add: in_force_def)
qed (simp add: in_force_def)

text \<open>A query in flight was received in a state whose rules did not block it.\<close>

lemma received_unblocked:
  assumes "daemon_run be env d0 tr d" "dns_ok (he_lib env)" "fresh d0" "daemon_inv env {rule_set d0} d0"
    "(r, req) \<in> set (d_inflight d)"
  shows "\<exists>tr1 d1 d2 tr2. tr = tr1 @ (Receive r, d2) # tr2 \<and> daemon_run be env d0 tr1 d1 \<and>
    daemon_step be env d1 (Receive r) d2 \<and> (r, req) \<in> set (d_inflight d2) \<and>
    \<not> IsBlocked (he_engine env) (rule_set d1) (qname_of env r)"
  using assms
proof induction
  case (run_step tr d l d')
  have inv: "daemon_inv env (in_force d0 tr) d" by (rule run_accounts [OF run_step.hyps(1) run_step.prems(1-3)])
  from inflight_origin [OF run_step.hyps(2) run_step.prems(1) inv run_step.prems(4)] show ?case
  proof
    assume "(r, req) \<in> set (d_inflight d)"
    then obtain tr1 d1 d2 tr2 where "tr = tr1 @ (Receive r, d2) # tr2" "daemon_run be env d0 tr1 d1"
      "daemon_step be env d1 (Receive r) d2" "(r, req) \<in> set (d_inflight d2)"
      "\<not> IsBlocked (he_engine env) (rule_set d1) (qname_of env r)"
      using run_step.IH [OF run_step.prems(1-3)] by blast
    then show ?thesis by (intro exI [of _ tr1] exI [of _ d1] exI [of _ d2] exI [of _ "tr2 @ [(l, d')]"]) simp
  next
    assume "l = Receive r \<and> \<not> IsBlocked (he_engine env) (rule_set d) (qname_of env r)"
    then show ?thesis
      using run_step.hyps run_step.prems(4)
      by (intro exI [of _ tr] exI [of _ d] exI [of _ d'] exI [of _ "[]"]) simp
  qed
qed (simp add: fresh_def)


section \<open>Progress\<close>

lemma inflight_completes:
  assumes "dns_ok (he_lib env)" "daemon_inv env es d"
  shows "\<forall>(r, req) \<in> set (d_inflight d). \<forall>order. arrivals order (d_handler d) \<longrightarrow>
    (\<exists>res s. forward_step env order req (d_handler d, d_io d) = Some (res, s) \<and> after_forward env r req res s \<noteq> None)"
proof (intro ballI)
  fix q assume q: "q \<in> set (d_inflight d)"
  obtain r req where [simp]: "q = (r, req)" by (cases q)
  have "\<exists>res s. forward_step env order req (d_handler d, d_io d) = Some (res, s) \<and> after_forward env r req res s \<noteq> None"
    if "arrivals order (d_handler d)" for order
    by (rule complete_answered [OF assms _ that, of r req]) (use q in simp, intro exI conjI, assumption, simp)
  then show "case q of (r, req) \<Rightarrow> \<forall>order. arrivals order (d_handler d) \<longrightarrow>
    (\<exists>res s. forward_step env order req (d_handler d, d_io d) = Some (res, s) \<and> after_forward env r req res s \<noteq> None)"
    by simp
qed

lemma inflight_step:
  assumes "dns_ok (he_lib env)" "daemon_inv env es d" "d_status d \<in> {Running, Stopping}"
  shows "\<forall>(r, req) \<in> set (d_inflight d). \<exists>d'. daemon_step be env d (Complete r) d'"
proof (intro ballI)
  fix q assume q: "q \<in> set (d_inflight d)"
  obtain r req where [simp]: "q = (r, req)" by (cases q)
  let ?order = "[0..<length (fw_resolvers (h_forwarder (d_handler d)))]"
  have arr: "arrivals ?order (d_handler d)" by (simp add: arrivals_def)
  obtain qs qs' where qs: "d_inflight d = qs @ (r, req) # qs'" using split_list [OF q] by auto
  obtain res s h io where fw: "forward_step env ?order req (d_handler d, d_io d) = Some (res, s)"
    "after_forward env r req res s = Some (h, io)"
    by (rule complete_answered [OF assms(1,2) _ arr, of r req]) (use q in simp)
  have "\<exists>d'. daemon_step be env d (Complete r) d'" using complete [OF assms(3) qs arr fw] by (rule exI)
  then show "case q of (r, req) \<Rightarrow> \<exists>d'. daemon_step be env d (Complete r) d'" by simp
qed

lemma serve_local_no_panic:
  assumes "dns_ok (he_lib env)" "daemon_inv env es d"
  shows "\<forall>rand r. serve_local env rand (Some r) (d_handler d, d_io d) \<noteq> None"
proof (intro allI)
  fix rand r
  have inv: "handler_inv env es (d_handler d)" using assms(2) by (simp add: daemon_inv_def)
  show "serve_local env rand (Some r) (d_handler d, d_io d) \<noteq> None"
  proof (cases "mQuestion r = []")
    case True
    then show ?thesis using serve_local_malformed [OF assms(1) True] by (metis option.discI)
  next
    case False
    from assms(1) inv False show ?thesis
      by (cases rule: serve_local_cases [where rand = rand and io = "d_io d"]) simp_all
  qed
qed

lemma receive_step:
  assumes "dns_ok (he_lib env)" "daemon_inv env es d" "d_status d \<in> {Running, Stopping}"
  shows "d_active d \<noteq> [] \<longrightarrow> (\<forall>r. \<exists>d'. daemon_step be env d (Receive r) d')"
proof (intro impI allI)
  fix r assume act: "d_active d \<noteq> []"
  obtain ph where ph: "serve_local env (\<lambda>n. []) (Some r) (d_handler d, d_io d) = Some ph"
    using serve_local_no_panic [OF assms(1,2)] by blast
  show "\<exists>d'. daemon_step be env d (Receive r) d'"
  proof (cases ph)
    case (Replied s)
    then show ?thesis using ph receive_done [OF assms(3) act] by (cases s) blast
  next
    case (Pending r' req s)
    then show ?thesis using ph receive_pending [OF assms(3) act] by (cases s) blast
  qed
qed

section \<open>The start\<close>

text \<open>No configuration file names 2 to the 64 upstreams.\<close>

definition few_servers :: "'e boot_env \<Rightarrow> bool" where
  "few_servers be \<longleftrightarrow>
     (\<forall>data c c'. be_unmarshal be data c = Some c' \<longrightarrow> length (Servers (Upstream c')) < 2 ^ 64)"

lemma NewForwarder_Inr:
  assumes "NewForwarder env cfg = Inr f"
  shows "fw_resolvers f \<noteq> []" "length (fw_resolvers f) \<le> length (Servers cfg)" "fw_counter f = 0"
proof -
  have "fw_resolvers f = List.map_filter (new_resolver env cfg (if Timeout cfg \<le> 0 then 4 * Second else Timeout cfg)) (Servers cfg)"
    and ne: "fw_resolvers f \<noteq> []" and z: "fw_counter f = 0"
    using assms by (auto simp: NewForwarder_def Let_def split: if_splits)
  then show "fw_resolvers f \<noteq> []" "fw_counter f = 0" "length (fw_resolvers f) \<le> length (Servers cfg)"
    by (simp_all add: length_map_filter_le)
qed

lemma StartAutoUpdate_New: "StartAutoUpdate (NewEngine b) = (0 < UpdateInterval b)"
  by (auto simp: StartAutoUpdate_def)

lemma start_daemon_Serving:
  assumes "start_daemon env fl sched w path cfg = Serving d"
  obtains f where "NewForwarder (he_net env) (Upstream cfg) = Inr f"
    "d_handler d = NewHandler cfg (if Enabled (Blocking cfg) then LoadRules (he_engine env) sched (NewEngine (Blocking cfg))
       else NewEngine (Blocking cfg)) f (NewCache (CacheCfg cfg))"
    "d_starting d = concat (map (\<lambda>a. [(a, listener_of (Server cfg) ''udp'' a), (a, listener_of (Server cfg) ''tcp'' a)])
       (GetListenAddrs (Server cfg)))"
    "fresh d" "d_status d = Running" "d_server d = NewServer (Server cfg)" "d_inflight d = []"
    "d_updates d = (Enabled (Blocking cfg) \<and> 0 < UpdateInterval (Blocking cfg))" "d_cancelled d = False"
proof (cases "NewForwarder (he_net env) (Upstream cfg)")
  case (Inl e)
  then show ?thesis using assms by (simp add: start_daemon_def Let_def split: if_splits)
next
  case (Inr f)
  have "\<exists>log lvl. d =
    \<lparr>d_handler = NewHandler cfg (if Enabled (Blocking cfg) then LoadRules (he_engine env) sched (NewEngine (Blocking cfg))
       else NewEngine (Blocking cfg)) f (NewCache (CacheCfg cfg)),
     d_io = \<lparr>io_world = w, io_log = log, io_written = []\<rparr>, d_level = lvl, d_server = NewServer (Server cfg),
     d_starting = concat (map (\<lambda>a. [(a, listener_of (Server cfg) ''udp'' a), (a, listener_of (Server cfg) ''tcp'' a)])
       (GetListenAddrs (Server cfg))), d_active = [],
     d_updates = (Enabled (Blocking cfg) \<and> 0 < UpdateInterval (Blocking cfg)), d_cancelled = False,
     d_status = Running, d_inflight = []\<rparr>"
    using assms Inr
    by (cases "Enabled (Blocking cfg)") (auto simp: start_daemon_def Let_def listeners_NewServer StartAutoUpdate_New)
  then obtain log lvl where "d =
    \<lparr>d_handler = NewHandler cfg (if Enabled (Blocking cfg) then LoadRules (he_engine env) sched (NewEngine (Blocking cfg))
       else NewEngine (Blocking cfg)) f (NewCache (CacheCfg cfg)),
     d_io = \<lparr>io_world = w, io_log = log, io_written = []\<rparr>, d_level = lvl, d_server = NewServer (Server cfg),
     d_starting = concat (map (\<lambda>a. [(a, listener_of (Server cfg) ''udp'' a), (a, listener_of (Server cfg) ''tcp'' a)])
       (GetListenAddrs (Server cfg))), d_active = [],
     d_updates = (Enabled (Blocking cfg) \<and> 0 < UpdateInterval (Blocking cfg)), d_cancelled = False,
     d_status = Running, d_inflight = []\<rparr>" by blast
  then show ?thesis using Inr by (intro that [of f]) (simp_all add: fresh_def)
qed

lemma main_Serving:
  assumes "main be env fl sched w = (out, Serving d)"
  obtains cfg path where "out = [Banner]" "Load (be_read be) (be_unmarshal be) path = Inr cfg"
    "path = resolve_path (be_stat be) (fl_config fl)" "\<not> fl_version fl" "\<not> fl_v fl" "\<not> fl_test fl"
    "checkPortAvailability (be_bind be) (GetListenAddrs (Server cfg)) = None"
    "start_daemon env fl sched w path cfg = Serving d"
  using assms by (auto simp: main_def Let_def split: if_splits sum.splits option.splits)

lemma Load_few_servers:
  assumes "few_servers be" "Load (be_read be) (be_unmarshal be) path = Inr cfg"
  shows "length (Servers (Upstream cfg)) < 2 ^ 64"
proof -
  have "length (Servers (Upstream DefaultConfig)) < 2 ^ 64" by (simp add: DefaultConfig_def)
  then show ?thesis
    using assms by (auto simp: Load_def Let_def few_servers_def Validate_Inr split: if_splits option.splits sum.splits)
qed

lemma main_inv:
  assumes "main be env fl sched w = (out, Serving d)" "few_servers be"
  shows "daemon_inv env {rule_set d} d" "fresh d" "d_status d = Running"
proof -
  obtain cfg path where m: "Load (be_read be) (be_unmarshal be) path = Inr cfg"
    "start_daemon env fl sched w path cfg = Serving d"
    by (rule main_Serving [OF assms(1)])
  obtain f where f: "NewForwarder (he_net env) (Upstream cfg) = Inr f" "fresh d" "d_status d = Running" "d_inflight d = []"
    and h: "d_handler d = NewHandler cfg (if Enabled (Blocking cfg) then LoadRules (he_engine env) sched (NewEngine (Blocking cfg))
       else NewEngine (Blocking cfg)) f (NewCache (CacheCfg cfg))"
    by (rule start_daemon_Serving [OF m(2)])
  have "fw_resolvers f \<noteq> []" "length (fw_resolvers f) < 2 ^ 64"
    using NewForwarder_Inr [OF f(1)] Load_few_servers [OF assms(2) m(1)] by simp_all
  then have "handler_inv env {rule_set d} (d_handler d)"
    unfolding rule_set_def h NewHandler_fields by (rule NewHandler_inv)
  then show "daemon_inv env {rule_set d} d" "fresh d" "d_status d = Running"
    using f by (simp_all add: daemon_inv_def inflight_ok_def)
qed








section \<open>Reloading\<close>

lemma IsBlocked_sources [simp]: "IsBlocked (ee\<lparr>ee_open := fs, ee_http := http\<rparr>) e d = IsBlocked ee e d"
  by (simp add: IsBlocked_def split: option.split)

lemma source_texts_fetch_error: "source_texts (FetchURL ul (\<lambda>u. HttpDoError) u) = []"
  by (simp add: source_texts_def FetchURL_def)

text \<open>The engine whose configuration names no remote list.\<close>

definition without_remote :: "'re engine \<Rightarrow> 're engine" where
  "without_remote e = e\<lparr>eng_cfg := (eng_cfg e)\<lparr>BlocklistURLs := []\<rparr>\<rparr>"

lemma LoadRules_no_network:
  "IsBlocked ee (LoadRules (ee\<lparr>ee_open := fs, ee_http := (\<lambda>u. HttpDoError)\<rparr>) sched e) d =
   IsBlocked ee (LoadRules (ee\<lparr>ee_open := fs, ee_http := http\<rparr>) sched' (without_remote e)) d"
proof -
  let ?ee = "ee\<lparr>ee_open := fs, ee_http := (\<lambda>u. HttpDoError)\<rparr>" and ?ee' = "ee\<lparr>ee_open := fs, ee_http := http\<rparr>"
  have "black_texts ?ee (eng_cfg e) = black_texts ?ee' (eng_cfg (without_remote e))"
    by (simp add: black_texts_def source_texts_fetch_error concat_eq_Nil_conv without_remote_def)
  then have "IsBlocked ?ee (LoadRules ?ee sched e) d = IsBlocked ?ee' (LoadRules ?ee' sched' (without_remote e)) d"
    by (simp add: IsBlocked_LoadRules blocked_spec_def white_texts_def patterns_def without_remote_def cong: if_cong)
  then show ?thesis by simp
qed

section \<open>A concrete process\<close>

definition example_boot :: "string boot_env" where
  "example_boot =
     \<lparr>be_stat = (\<lambda>p. False), be_read = (\<lambda>p. None), be_unmarshal = (\<lambda>data c. None), be_bind = (\<lambda>n a. None),
      be_listen_text = (\<lambda>es. ''error'')\<rparr>"

definition example_flags :: flags where
  "example_flags = \<lparr>fl_config = [], fl_version = False, fl_v = False, fl_debug = False, fl_test = False\<rparr>"

lemma example_few_servers: "few_servers example_boot"
  by (simp add: few_servers_def example_boot_def)

lemma NewForwarder_exists:
  assumes "s \<in> set (Servers cfg)" "trim_space s \<noteq> []"
  obtains f where "NewForwarder env cfg = Inr f"
proof -
  have "new_resolver env cfg t s \<noteq> None" for t using assms(2) by (simp add: new_resolver_def Let_def)
  then obtain r where "new_resolver env cfg (if Timeout cfg \<le> 0 then 4 * Second else Timeout cfg) s = Some r" by blast
  then have "r \<in> set (List.map_filter (new_resolver env cfg (if Timeout cfg \<le> 0 then 4 * Second else Timeout cfg)) (Servers cfg))"
    using assms(1) by (auto simp: in_set_map_filter)
  then have "List.map_filter (new_resolver env cfg (if Timeout cfg \<le> 0 then 4 * Second else Timeout cfg)) (Servers cfg) \<noteq> []"
    by force
  moreover have "Servers cfg \<noteq> []" using assms(1) by auto
  ultimately show ?thesis using that by (simp add: NewForwarder_def Let_def)
qed

lemma start_daemon_total:
  assumes "NewForwarder (he_net env) (Upstream cfg) = Inr f"
  obtains d0 where "start_daemon env fl sched w path cfg = Serving d0"
  using assms by (cases "Enabled (Blocking cfg)") (simp_all add: start_daemon_def Let_def)

lemma example_main:
  obtains d0 where "main example_boot (example_henv up) example_flags id [] = ([Banner], Serving d0)"
    "d_starting d0 \<noteq> []"
proof -
  have path: "resolve_path (be_stat example_boot) (fl_config example_flags) = []"
    by (simp add: resolve_path_def example_boot_def example_flags_def candidates_def)
  have ports: "checkPortAvailability (\<lambda>n a. None) as = None" for as by (induction as) simp_all
  have server: "''https://dns.quad9.net/dns-query'' \<in> set (Servers (Upstream DefaultConfig))"
    by (simp add: DefaultConfig_def)
  have "trim_space ''https://dns.quad9.net/dns-query'' \<noteq> []" by code_simp
  then obtain f where f: "NewForwarder (he_net (example_henv up)) (Upstream DefaultConfig) = Inr f"
    by (rule NewForwarder_exists [OF server])
  obtain d0 where d0: "start_daemon (example_henv up) example_flags id [] [] DefaultConfig = Serving d0"
    by (rule start_daemon_total [OF f])
  then have "d_starting d0 \<noteq> []"
    by (rule start_daemon_Serving) (simp add: DefaultConfig_def GetListenAddrs_def)
  moreover have "main example_boot (example_henv up) example_flags id [] = ([Banner], Serving d0)"
    using d0 path ports
    by (simp add: main_def Let_def Load_def example_flags_def, simp add: example_boot_def example_flags_def)
  ultimately show ?thesis using that by blast
qed

text \<open>A run in which a listener starts and receives a message without a question.\<close>

lemma example_run:
  assumes "main be (example_henv up) fl sched w = (out, Serving d0)" "few_servers be" "d_starting d0 \<noteq> []"
  obtains tr d m where "daemon_run be (example_henv up) d0 tr d" "labels_of tr = [Listen, Receive new_msg]"
    "d_inflight d = []" "io_written (d_io d) = [m]" "d_status d = Running" "d_active d \<noteq> []"
proof -
  note init = main_inv [OF assms(1,2)]
  obtain l ls where l: "d_starting d0 = [] @ l # ls" using assms(3) by (cases "d_starting d0") auto
  define d1 where "d1 = d0\<lparr>d_starting := [] @ ls, d_active := l # d_active d0, d_io := log_io [start_event l] (d_io d0)\<rparr>"
  have step1: "daemon_step be (example_henv up) d0 Listen d1" by (rule listen [OF init(3) l d1_def])
  have r1: "daemon_run be (example_henv up) d0 ([] @ [(Listen, d1)]) d1" by (rule run_step) (rule run_init, rule step1)
  have q: "mQuestion new_msg = []" by (simp add: new_msg_def)
  obtain m where m: "serve_local (example_henv up) (\<lambda>n. []) (Some new_msg) (d_handler d1, d_io d1) =
      Some (Replied (d_handler d1, WriteMsg m (d_io d1)))"
    by (rule serve_local_malformed [OF example_henv_ok q])
  have st: "d_status d1 \<in> {Running, Stopping}" "d_active d1 \<noteq> []" using init(3) by (simp_all add: d1_def)
  define d2 where "d2 = d1\<lparr>d_handler := d_handler d1, d_io := WriteMsg m (d_io d1)\<rparr>"
  have step2: "daemon_step be (example_henv up) d1 (Receive new_msg) d2" unfolding d2_def by (rule receive_done [OF st m])
  have "daemon_run be (example_henv up) d0 (([] @ [(Listen, d1)]) @ [(Receive new_msg, d2)]) d2"
    by (rule run_step) (rule r1, rule step2)
  moreover have "labels_of (([] @ [(Listen, d1)]) @ [(Receive new_msg, d2)]) = [Listen, Receive new_msg]"
    by (simp add: labels_of_def)
  moreover have "d_inflight d2 = []" "io_written (d_io d2) = [m]" "d_status d2 = Running" "d_active d2 \<noteq> []"
    using init by (simp_all add: d1_def d2_def fresh_def)
  ultimately show ?thesis by (rule that)
qed

text \<open>A process without blocking, and a run in which its first query is in flight.\<close>

definition quiet_cfg :: config where
  "quiet_cfg = DefaultConfig\<lparr>Blocking := (Blocking DefaultConfig)\<lparr>Enabled := False\<rparr>\<rparr>"

definition quiet_boot :: "string boot_env" where
  "quiet_boot = example_boot\<lparr>be_read := (\<lambda>p. Some []), be_unmarshal := (\<lambda>data c. Some quiet_cfg)\<rparr>"

definition quiet_flags :: flags where
  "quiet_flags = example_flags\<lparr>fl_config := ''quiet.yaml''\<rparr>"

lemma quiet_few_servers: "few_servers quiet_boot"
  by (simp add: few_servers_def quiet_boot_def quiet_cfg_def DefaultConfig_def)

lemma quiet_main:
  obtains d0 where "main quiet_boot (example_henv up) quiet_flags id [] = ([Banner], Serving d0)"
    "d_starting d0 \<noteq> []" "\<forall>q. \<not> blocked (example_henv up) (d_handler d0) q" "items (h_cache (d_handler d0)) = Map.empty"
proof -
  have "config_ok quiet_cfg" unfolding quiet_cfg_def by code_simp
  then have load: "Load (be_read quiet_boot) (be_unmarshal quiet_boot) ''quiet.yaml'' = Inr quiet_cfg"
    by (simp add: Load_def Let_def quiet_boot_def Validate_id)
  have server: "''https://dns.quad9.net/dns-query'' \<in> set (Servers (Upstream quiet_cfg))"
    by (simp add: quiet_cfg_def DefaultConfig_def)
  have "trim_space ''https://dns.quad9.net/dns-query'' \<noteq> []" by code_simp
  then obtain f where f: "NewForwarder (he_net (example_henv up)) (Upstream quiet_cfg) = Inr f"
    by (rule NewForwarder_exists [OF server])
  obtain d0 where d0: "start_daemon (example_henv up) quiet_flags id [] ''quiet.yaml'' quiet_cfg = Serving d0"
    by (rule start_daemon_total [OF f])
  have ports: "checkPortAvailability (\<lambda>n a. None) as = None" for as by (induction as) simp_all
  have main: "main quiet_boot (example_henv up) quiet_flags id [] = ([Banner], Serving d0)"
    using d0 load
    by (simp add: main_def Let_def quiet_flags_def example_flags_def resolve_path_def,
        simp add: quiet_boot_def example_boot_def ports)
  have off: "\<not> Enabled (Blocking quiet_cfg)" by (simp add: quiet_cfg_def)
  obtain g where h: "d_handler d0 = NewHandler quiet_cfg (NewEngine (Blocking quiet_cfg)) g (NewCache (CacheCfg quiet_cfg))"
    by (rule start_daemon_Serving [OF d0]) (simp add: off)
  have "\<not> blocked (example_henv up) (d_handler d0) q" for q
    by (simp add: h blocked_def IsBlocked_def NewEngine_def off)
  moreover have "items (h_cache (d_handler d0)) = Map.empty" by (simp add: h NewCache_def Let_def)
  moreover have "d_starting d0 \<noteq> []"
    by (rule start_daemon_Serving [OF d0]) (simp add: quiet_cfg_def DefaultConfig_def GetListenAddrs_def)
  ultimately show ?thesis using main that by blast
qed

lemma quiet_run:
  assumes "main be (example_henv up) fl sched w = (out, Serving d0)" "few_servers be" "d_starting d0 \<noteq> []"
    "\<not> blocked (example_henv up) (d_handler d0) r" "items (h_cache (d_handler d0)) = Map.empty" "mQuestion r \<noteq> []"
  obtains tr d req where "daemon_run be (example_henv up) d0 tr d" "labels_of tr = [Listen, Receive r]" "d_inflight d = [(r, req)]"
proof -
  note init = main_inv [OF assms(1,2)]
  obtain l ls where l: "d_starting d0 = [] @ l # ls" using assms(3) by (cases "d_starting d0") auto
  define d1 where "d1 = d0\<lparr>d_starting := [] @ ls, d_active := l # d_active d0, d_io := log_io [start_event l] (d_io d0)\<rparr>"
  have step1: "daemon_step be (example_henv up) d0 Listen d1" by (rule listen [OF init(3) l d1_def])
  have r1: "daemon_run be (example_henv up) d0 ([] @ [(Listen, d1)]) d1" by (rule run_step) (rule run_init, rule step1)
  have st: "d_status d1 \<in> {Running, Stopping}" "d_active d1 \<noteq> []" using init(3) by (simp_all add: d1_def)
  obtain req where req: "prepareUpstreamQuery (example_henv up) (\<lambda>n. []) (d_handler d1) r = Some req"
    by (rule prepare_total [OF example_henv_ok])
  have miss: "lookup (example_henv up) r (d_handler d1) (d_io d1) = (None, h_cache (d_handler d1))"
    using assms(5) by (simp add: lookup_def Get_def Let_def d1_def)
  have nb: "\<not> blocked (example_henv up) (d_handler d1) r" using assms(4) by (simp add: d1_def)
  have "serve_local (example_henv up) (\<lambda>n. []) (Some r) (d_handler d1, d_io d1) =
      Some (Pending r req ((d_handler d1)\<lparr>h_cache := h_cache (d_handler d1)\<rparr>, d_io d1))"
    using serve_local_miss [OF assms(6) nb miss, of "\<lambda>n. []"] req by simp
  note step2 = receive_pending [OF st this]
  define d2 where "d2 = d1\<lparr>d_handler := (d_handler d1)\<lparr>h_cache := h_cache (d_handler d1)\<rparr>, d_io := d_io d1,
    d_inflight := (r, req) # d_inflight d1\<rparr>"
  have "daemon_run be (example_henv up) d0 (([] @ [(Listen, d1)]) @ [(Receive r, d2)]) d2"
    unfolding d2_def by (rule run_step) (rule r1, rule step2)
  moreover have "labels_of (([] @ [(Listen, d1)]) @ [(Receive r, d2)]) = [Listen, Receive r]" by (simp add: labels_of_def)
  moreover have "d_inflight d2 = [(r, req)]" using init by (simp add: d1_def d2_def fresh_def)
  ultimately show ?thesis by (rule that)
qed

lemma queries_labels: "queries tr = concat (map received (labels_of tr))"
  by (simp add: queries_def requests_of_def)

section \<open>Properties\<close>

text \<open>
  C1. No query is lost and no reply is invented.  From the start of the process and through every
  interleaving of queries, upstream answers, reloads, ticks, signals and failures, the IDs of the
  messages received are exactly those of the replies written and of the queries still in flight.
\<close>

theorem every_message_accounted:
  assumes "main be env fl sched w = (out, Serving d0)" "few_servers be" "dns_ok (he_lib env)"
    "daemon_run be env d0 tr d"
  shows "mset (map mId (io_written (d_io d))) + mset (map (mId \<circ> fst) (d_inflight d)) = mset (map mId (queries tr))"
  by (rule run_accounts [OF assms(4,3) main_inv(2,1) [OF assms(1,2)]])

lemma every_message_accounted_witness:
  "\<exists>d0 tr d. main example_boot (example_henv {}) example_flags id [] = ([Banner], Serving d0) \<and>
     daemon_run example_boot (example_henv {}) d0 tr d \<and> labels_of tr = [Listen, Receive new_msg] \<and>
     mset (map mId (io_written (d_io d))) = {#0#}"
proof -
  obtain d0 where d0: "main example_boot (example_henv {}) example_flags id [] = ([Banner], Serving d0)" "d_starting d0 \<noteq> []"
    by (rule example_main)
  obtain tr d m where d: "daemon_run example_boot (example_henv {}) d0 tr d" "labels_of tr = [Listen, Receive new_msg]"
    "d_inflight d = []"
    by (rule example_run [OF d0(1) example_few_servers d0(2)])
  have "mId new_msg = 0" by (simp add: new_msg_def)
  with every_message_accounted [OF d0(1) example_few_servers example_henv_ok d(1)] d(2,3)
  have "mset (map mId (io_written (d_io d))) = {#0#}" by (simp add: queries_labels)
  with d0(1) d(1,2) show ?thesis by (intro exI conjI)
qed

text \<open>
  C2. Every reply of the process, from its start on and whatever interleaves, is FORMERR for a message without
  a question, the sinkhole answer, SERVFAIL, or a response that is clean under a rule set that has been in
  force; as long as no reload happened, that is the rule set loaded before the first query.
\<close>

theorem all_replies_safe:
  assumes "main be env fl sched w = (out, Serving d0)" "few_servers be" "dns_ok (he_lib env)"
    "daemon_run be env d0 tr d"
  shows "(\<forall>reply \<in> set (io_written (d_io d)). \<exists>r \<in> set (queries tr). mId reply = mId r \<and>
      (mQuestion r = [] \<and> reply_to r RcodeFormatError reply \<or>
       mQuestion r \<noteq> [] \<and>
         (reply = sinkhole_reply env (d_handler d0) r (hd (mQuestion r)) \<or> reply_to r RcodeServerFailure reply \<or>
          (\<exists>eng \<in> in_force d0 tr. clean env (h_cfg (d_handler d0)) eng (qname_of env r) reply)))) \<and>
    (list_ex reloads (labels_of tr) \<or> in_force d0 tr = {rule_set d0})"
proof (intro conjI ballI)
  note run = assms(4,3) main_inv(2,1) [OF assms(1,2)]
  show "list_ex reloads (labels_of tr) \<or> in_force d0 tr = {rule_set d0}" using rules_unchanged [OF run] by blast
  fix reply assume reply: "reply \<in> set (io_written (d_io d))"
  from bspec [OF run_accounts(4) [OF run] reply]
  obtain r where r: "r \<in> set (queries tr)" "reply_for env (in_force d0 tr) (d_handler d0) r reply" by (rule bexE)
  show "\<exists>r \<in> set (queries tr). mId reply = mId r \<and>
      (mQuestion r = [] \<and> reply_to r RcodeFormatError reply \<or>
       mQuestion r \<noteq> [] \<and>
         (reply = sinkhole_reply env (d_handler d0) r (hd (mQuestion r)) \<or> reply_to r RcodeServerFailure reply \<or>
          (\<exists>eng \<in> in_force d0 tr. clean env (h_cfg (d_handler d0)) eng (qname_of env r) reply)))"
    using r(2) reply_for_id [OF r(2)]
    by (intro bexI [OF _ r(1)]) (auto simp: reply_for_def good_reply_def split: if_splits)
qed

lemma all_replies_safe_witness:
  "\<exists>d0 tr d m. daemon_run example_boot (example_henv {}) d0 tr d \<and> labels_of tr = [Listen, Receive new_msg] \<and>
     io_written (d_io d) = [m] \<and> reply_to new_msg RcodeFormatError m \<and> in_force d0 tr = {rule_set d0}"
proof -
  obtain d0 where d0: "main example_boot (example_henv {}) example_flags id [] = ([Banner], Serving d0)" "d_starting d0 \<noteq> []"
    by (rule example_main)
  obtain tr d m where d: "daemon_run example_boot (example_henv {}) d0 tr d" "labels_of tr = [Listen, Receive new_msg]"
    "io_written (d_io d) = [m]"
    by (rule example_run [OF d0(1) example_few_servers d0(2)])
  have "mQuestion new_msg = []" by (simp add: new_msg_def)
  with all_replies_safe [OF d0(1) example_few_servers example_henv_ok d(1)] d(2,3)
  have "reply_to new_msg RcodeFormatError m" "in_force d0 tr = {rule_set d0}"
    by (auto simp: queries_labels reloads_def)
  with d show ?thesis by blast
qed

text \<open>
  C4. What the process may send to an upstream.  A query in flight, which is all that is ever forwarded, was received in
  some step of the run, and the rule set in force in the state in which it was received did not block its name.
  If the client's query had at most one OPT record, the message to be sent is the client's but for the case of the
  letters of its name and the additional section as \<open>private_extra\<close> has it, it has no client subnet, and, if padding is
  configured, its length is a multiple of the block size.
\<close>

theorem forwards_only_unblocked:
  assumes "main be env fl sched w = (out, Serving d0)" "few_servers be" "dns_ok (he_lib env)"
    "daemon_run be env d0 tr d" "(r, req) \<in> set (d_inflight d)"
  shows "(\<exists>tr1 d1 d2 tr2. tr = tr1 @ (Receive r, d2) # tr2 \<and> daemon_run be env d0 tr1 d1 \<and>
      daemon_step be env d1 (Receive r) d2 \<and> (r, req) \<in> set (d_inflight d2) \<and>
      \<not> IsBlocked (he_engine env) (h_filter (d_handler d1)) (qname_of env r)) \<and>
    (length (filter is_opt (mExtra r)) \<le> 1 \<longrightarrow> upstream_form env (h_cfg (d_handler d0)) r req)"
proof -
  note run = assms(4,3) main_inv(2,1) [OF assms(1,2)]
  have cfg: "h_cfg (d_handler d) = h_cfg (d_handler d0)" using run_accounts(2) [OF run] by (simp add: keeps_def)
  have "inflight_ok env (in_force d0 tr) d" using run_accounts(1) [OF run] by (simp add: daemon_inv_def)
  from bspec [OF this [unfolded inflight_ok_def] assms(5)]
  obtain rand where q: "mQuestion r \<noteq> []" "prepareUpstreamQuery env rand (d_handler d) r = Some req"
    by auto
  have "upstream_form env (h_cfg (d_handler d0)) r req" if "length (filter is_opt (mExtra r)) \<le> 1"
    using prepared_form [OF assms(3) q(1) that q(2)] unfolding cfg .
  moreover note received_unblocked [OF run assms(5)]
  ultimately show ?thesis unfolding rule_set_def by blast
qed

lemma forwards_only_unblocked_witness:
  "\<exists>d0 tr d req. daemon_run quiet_boot (example_henv {}) d0 tr d \<and>
     labels_of tr = [Listen, Receive (example_query ''a.b.'')] \<and>
     d_inflight d = [(example_query ''a.b.'', req)] \<and> no_ecs req"
proof -
  let ?q = "example_query ''a.b.''"
  obtain d0 where d0: "main quiet_boot (example_henv {}) quiet_flags id [] = ([Banner], Serving d0)" "d_starting d0 \<noteq> []"
    "\<forall>q. \<not> blocked (example_henv {}) (d_handler d0) q" "items (h_cache (d_handler d0)) = Map.empty"
    by (rule quiet_main [of "{}"])
  have "mQuestion ?q \<noteq> []" by simp
  then obtain tr d req where d: "daemon_run quiet_boot (example_henv {}) d0 tr d" "labels_of tr = [Listen, Receive ?q]"
    "d_inflight d = [(?q, req)]"
    by (rule quiet_run [OF d0(1) quiet_few_servers d0(2) spec [OF d0(3)] d0(4)])
  have "(?q, req) \<in> set (d_inflight d)" by (simp add: d(3))
  from forwards_only_unblocked [OF d0(1) quiet_few_servers example_henv_ok d(1) this]
  have "no_ecs req" by (simp add: upstream_form_def)
  with d show ?thesis by (intro exI conjI)
qed

text \<open>
  C3. Nothing gets stuck: in every state the process reaches before it exits, each query in flight can be
  completed, and, once a listener is up, any message can be received; no handler panics.
\<close>

theorem no_query_stuck:
  assumes "main be env fl sched w = (out, Serving d0)" "few_servers be" "dns_ok (he_lib env)"
    "daemon_run be env d0 tr d" "d_status d = Running \<or> d_status d = Stopping"
  shows "(\<forall>(r, req) \<in> set (d_inflight d). \<exists>d'. daemon_step be env d (Complete r) d') \<and>
    (d_active d \<noteq> [] \<longrightarrow> (\<forall>r. \<exists>d'. daemon_step be env d (Receive r) d')) \<and>
    (\<forall>rand r. serve_local env rand (Some r) (d_handler d, d_io d) \<noteq> None) \<and>
    (\<forall>(r, req) \<in> set (d_inflight d). \<forall>order. arrivals order (d_handler d) \<longrightarrow>
       (\<exists>res s. forward_step env order req (d_handler d, d_io d) = Some (res, s) \<and> after_forward env r req res s \<noteq> None))"
proof -
  have st: "d_status d \<in> {Running, Stopping}" using assms(5) by auto
  have inv: "daemon_inv env (in_force d0 tr) d" by (rule run_accounts [OF assms(4,3) main_inv(2,1) [OF assms(1,2)]])
  then show ?thesis
    using inflight_completes [OF assms(3) inv] inflight_step [OF assms(3) inv st]
      serve_local_no_panic [OF assms(3) inv] receive_step [OF assms(3) inv st] by blast
qed

lemma no_query_stuck_witness:
  "\<exists>d0 tr d d'. daemon_run example_boot (example_henv {}) d0 tr d \<and> labels_of tr = [Listen, Receive new_msg] \<and>
     daemon_step example_boot (example_henv {}) d (Receive (example_query ''a.b.'')) d'"
proof -
  obtain d0 where d0: "main example_boot (example_henv {}) example_flags id [] = ([Banner], Serving d0)" "d_starting d0 \<noteq> []"
    by (rule example_main)
  obtain tr d m where d: "daemon_run example_boot (example_henv {}) d0 tr d" "labels_of tr = [Listen, Receive new_msg]"
    "d_status d = Running" "d_active d \<noteq> []"
    by (rule example_run [OF d0(1) example_few_servers d0(2)])
  have "\<exists>d'. daemon_step example_boot (example_henv {}) d (Receive (example_query ''a.b.'')) d'"
    using no_query_stuck [OF d0(1) example_few_servers example_henv_ok d(1)] d(3,4) by blast
  with d(1,2) show ?thesis by blast
qed



text \<open>
  C20. What is true when the process starts to serve: no flag asked for something else, only the banner was
  printed, the configuration is a valid one, every configured address could be bound over UDP and TCP, the
  rules were loaded before the first query if blocking is on, updates run exactly if blocking is on with
  a positive interval, and exactly one UDP and one TCP listener per address are about to start.
\<close>

theorem serving_starts_ready:
  assumes "main be env fl sched w = (out, Serving d)"
  shows "\<exists>cfg. h_cfg (d_handler d) = cfg \<and> config_ok cfg \<and> out = [Banner] \<and>
    \<not> fl_version fl \<and> \<not> fl_v fl \<and> \<not> fl_test fl \<and>
    (\<forall>a. a \<in> set (GetListenAddrs (Server cfg)) \<longrightarrow> be_bind be ''udp'' a = None \<and> be_bind be ''tcp'' a = None) \<and>
    h_filter (d_handler d) =
      (if Enabled (Blocking cfg) then LoadRules (he_engine env) sched (NewEngine (Blocking cfg))
       else NewEngine (Blocking cfg)) \<and>
    d_updates d = (Enabled (Blocking cfg) \<and> 0 < UpdateInterval (Blocking cfg)) \<and>
    map (\<lambda>(a, srv). (a, ds_Addr srv, ds_Net srv)) (d_starting d) =
      concat (map (\<lambda>a. [(a, a, ''udp''), (a, a, ''tcp'')]) (GetListenAddrs (Server cfg)))"
proof -
  obtain cfg path where m: "out = [Banner]" "Load (be_read be) (be_unmarshal be) path = Inr cfg"
    "\<not> fl_version fl" "\<not> fl_v fl" "\<not> fl_test fl"
    "checkPortAvailability (be_bind be) (GetListenAddrs (Server cfg)) = None"
    "start_daemon env fl sched w path cfg = Serving d"
    by (rule main_Serving [OF assms])
  obtain f where d: "d_handler d = NewHandler cfg (if Enabled (Blocking cfg)
       then LoadRules (he_engine env) sched (NewEngine (Blocking cfg))
       else NewEngine (Blocking cfg)) f (NewCache (CacheCfg cfg))"
    "d_starting d = concat (map (\<lambda>a. [(a, listener_of (Server cfg) ''udp'' a), (a, listener_of (Server cfg) ''tcp'' a)])
       (GetListenAddrs (Server cfg)))"
    "d_updates d = (Enabled (Blocking cfg) \<and> 0 < UpdateInterval (Blocking cfg))"
    by (rule start_daemon_Serving [OF m(7)])
  have ports: "be_bind be ''udp'' a = None \<and> be_bind be ''tcp'' a = None" if "a \<in> set as" "checkPortAvailability (be_bind be) as = None" for a as
    using that by (induction as) (auto split: option.splits)
  have "config_ok cfg"
    using m(2) DefaultConfig_ok
    by (auto simp: Load_def Let_def dest: Validate_config_ok split: option.splits sum.splits if_splits)
  moreover have "map (\<lambda>(a, srv). (a, ds_Addr srv, ds_Net srv)) (d_starting d) =
      concat (map (\<lambda>a. [(a, a, ''udp''), (a, a, ''tcp'')]) (GetListenAddrs (Server cfg)))"
    unfolding d(2) map_concat by (simp add: comp_def listener_of_def)
  ultimately show ?thesis
    using m d(3) ports [OF _ m(6)] by (intro exI [of _ cfg]) (auto simp: d(1))
qed

lemma serving_starts_ready_witness:
  "\<exists>d. main example_boot (example_henv {}) example_flags id [] = ([Banner], Serving d) \<and>
     config_ok (h_cfg (d_handler d)) \<and> length (d_starting d) = 2 * length (GetListenAddrs (Server (h_cfg (d_handler d))))"
proof -
  obtain d where d: "main example_boot (example_henv {}) example_flags id [] = ([Banner], Serving d)"
    by (rule example_main)
  have two: "length (concat (map (\<lambda>a. [(a, a, ''udp''), (a, a, ''tcp'')]) as)) = 2 * length as" for as :: "string list"
    by (induction as) simp_all
  from serving_starts_ready [OF d]
  have ok: "config_ok (h_cfg (d_handler d))"
    and starting: "map (\<lambda>(a, srv). (a, ds_Addr srv, ds_Net srv)) (d_starting d) =
      concat (map (\<lambda>a. [(a, a, ''udp''), (a, a, ''tcp'')]) (GetListenAddrs (Server (h_cfg (d_handler d)))))"
    by blast+
  have "length (d_starting d) = 2 * length (GetListenAddrs (Server (h_cfg (d_handler d))))"
    using arg_cong [OF starting, of length] unfolding length_map two .
  with d ok show ?thesis by (intro exI conjI)
qed

text \<open>
  C22. A reload starts from nothing: with blocking on, the rules after it are those of the sources as they are
  then, whatever snapshot was in force.  In particular, if no remote list can be fetched at that moment, the
  decisions are those of a configuration without remote lists: the whitelist and the local entries, files
  and patterns are left, and every name that only a remote list blocked is answered again until the next
  successful reload.
\<close>

theorem reload_forgets_old_rules:
  "(Enabled (eng_cfg e) \<longrightarrow> reload env fs http sched e = reload env fs http sched (e\<lparr>eng_snapshot := s\<rparr>)) \<and>
   IsBlocked (he_engine env) (reload env fs (\<lambda>u. HttpDoError) sched e) d =
     IsBlocked (he_engine env) (reload env fs http' sched' (e\<lparr>eng_cfg := (eng_cfg e)\<lparr>BlocklistURLs := []\<rparr>\<rparr>)) d"
proof (intro conjI impI)
  show "reload env fs http sched e = reload env fs http sched (e\<lparr>eng_snapshot := s\<rparr>)" if "Enabled (eng_cfg e)"
    using that by (simp add: reload_def LoadRules_def Let_def)
  show "IsBlocked (he_engine env) (reload env fs (\<lambda>u. HttpDoError) sched e) d =
     IsBlocked (he_engine env) (reload env fs http' sched' (e\<lparr>eng_cfg := (eng_cfg e)\<lparr>BlocklistURLs := []\<rparr>\<rparr>)) d"
    unfolding reload_def without_remote_def [symmetric] by (rule LoadRules_no_network)
qed

lemma reload_forgets_old_rules_witness:
  "reload (example_henv {}) (\<lambda>p. None) (\<lambda>u. HttpDoError) rev example_engine =
   reload (example_henv {}) (\<lambda>p. None) (\<lambda>u. HttpDoError) rev (example_engine\<lparr>eng_snapshot := None\<rparr>)"
proof -
  have "eng_cfg example_engine = example_cfg" by (simp add: example_engine_def)
  then have "Enabled (eng_cfg example_engine)" by (simp add: example_cfg_def DefaultConfig_def)
  then show ?thesis by (rule reload_forgets_old_rules [THEN conjunct1, THEN mp])
qed

end
