(* ===== verification/Spec2Isabelle.thy ===== *)
theory Spec2Isabelle
  imports Filter_Engine Ring_Buffer Opsec Response_Cache Forwarder Handler_Properties Query_Log Dns_Server Daemon_Properties
begin

text \<open>
  TuxDNS-Hole is a DNS sinkhole: a daemon that answers the queries of a machine, with a null address or
  NXDOMAIN for names on its blocklists and from a cache or an encrypted upstream resolver for the others.
  This library models its Go code (\<^verbatim>\<open>cmd/tuxdnshole\<close> and \<^verbatim>\<open>internal/\<close>, under \<^verbatim>\<open>src/\<close>) and proves what makes
  it correct, from the label iterator of the domain trie up to the runs of the whole process.

  \<^bold>\<open>How the parts interact.\<close>  \<^verbatim>\<open>main\<close> loads the configuration, fills the filter engine from the configured
  lists, builds the pool of upstream resolvers, the cache, the query handler and the listeners, and then
  waits for signals.  A listener passes each query to the handler.  The handler asks the engine whether the
  name is blocked and answers with the sinkhole answer if it is; else it looks in the cache; else it prepares a
  private query, has the forwarder send it, checks the answer (aliases to blocked names, private addresses),
  stores it in the cache and replies.  SIGHUP and a ticker reload the engine's rules meanwhile.

  \<^bold>\<open>The theories, and the code they model.\<close>
  \<^item> \<open>Go_Prelude\<close>: bytes, strings and the functions of Go's \<^verbatim>\<open>strings\<close> that the program uses; the fact collections.
    \<open>Go_Net\<close>: \<^verbatim>\<open>net.IP\<close>, \<^verbatim>\<open>ParseIP\<close>, \<^verbatim>\<open>SplitHostPort\<close>, \<^verbatim>\<open>JoinHostPort\<close>.  \<open>Ip_Numbers\<close>: addresses as numbers.
    \<open>Dns_Msg\<close>: DNS messages, and the functions of miekg/dns as the argument \<open>dnslib\<close>.  \<open>Logging\<close>: log events.
  \<^item> \<open>Config\<close> (\<^verbatim>\<open>internal/config/config.go\<close>): the configuration records, \<open>DefaultConfig\<close>, \<open>Load\<close>, \<open>Validate\<close>.
  \<^item> \<open>Loader\<close> (\<^verbatim>\<open>internal/filter/loader.go\<close>): \<open>normalizeDomain\<close>, \<open>isValidDomain\<close>, \<open>ParseHosts\<close>, \<open>LoadFile\<close>, \<open>FetchURL\<close>.
  \<^item> \<open>Domain_Trie\<close> (\<^verbatim>\<open>internal/filter/engine.go\<close> to line 158): the trie, with \<open>Insert\<close> and \<open>Matches\<close> over the label
    iterator.  \<open>Filter_Engine\<close> (the rest of that file): \<open>LoadRules\<close> and \<open>IsBlocked\<close> on a rule snapshot.
    \<open>Rule_Store\<close> is the contract between them.
  \<^item> \<open>Opsec\<close> and \<open>Ring_Buffer\<close> (\<^verbatim>\<open>internal/dns/opsec.go\<close>): padding, 0x20 randomisation, the rebinding filter; the
    query log, whose concurrent pushes are interleavings of two atomic steps.
  \<^item> \<open>Response_Cache\<close> (\<^verbatim>\<open>internal/dns/cache.go\<close>): the LRU cache; \<open>Message_Store\<close> is its contract with the handler.
  \<^item> \<open>Go_Context\<close>: contexts with a deadline and cancellation.  \<open>Retry\<close>, \<open>Resolvers\<close>, \<open>Forwarder\<close>
    (\<^verbatim>\<open>internal/upstream/\<close>): a loop that tries one provider after the other, the plain, DoT and DoH clients with
    their bootstrap addresses, and the pool with its three strategies.
  \<^item> \<open>Handler\<close> (\<^verbatim>\<open>internal/dns/handler.go\<close>): one query, in the phases \<open>serve_local\<close>, \<open>forward_step\<close> and
    \<open>after_forward\<close> that \<open>ServeDNS\<close> composes; \<open>Handler_Safety\<close>, \<open>Handler_Properties\<close> and \<open>Query_Log\<close> hold its lemmas.
  \<^item> \<open>Dns_Server\<close> (\<^verbatim>\<open>internal/dns/server.go\<close>): the listeners, \<open>Start\<close> and \<open>Shutdown\<close>.
  \<^item> \<open>Daemon\<close> (\<^verbatim>\<open>cmd/tuxdnshole/main.go\<close>, and \<open>StartAutoUpdate\<close> of the engine): \<open>main\<close> up to the moment it serves,
    and the step relation \<open>daemon_step\<close> from then on.  \<open>Request_Server\<close> has the runs of a step relation and the
    contract of a process with its clients; \<open>Daemon_Properties\<close> interprets it on \<open>daemon_step\<close>.

  \<^bold>\<open>State.\<close>  A Go struct is a record with the source's field names (prefixed where two structs share one);
  pointers that may be nil are options, and a nil dereference or an index out of range is an outer \<open>None\<close>, so
  that the absence of panics is a theorem.  Unsigned counters and TTLs are words of their width; durations and
  times are integers (nanoseconds).  An error is a constructor of an error type.

  \<^bold>\<open>What is not under \<^verbatim>\<open>src/\<close>\<close> is an argument: the functions of miekg/dns (\<open>dnslib\<close>, with the facts used about
  them in \<open>dns_ok\<close>, and \<open>example_lib\<close> satisfying them), the network and the clock (\<open>net_env\<close>, any behaviour at
  all), the file system, the HTTP client and regular expressions (\<open>engine_env\<close>), the YAML decoder, binding of
  ports and the results of the listeners (\<open>boot_env\<close>), random bytes, and Unicode lower-casing of non-ASCII names.

  \<^bold>\<open>Concurrency.\<close>  Mutexes make the operations on trie, cache and engine atomic, and the snapshot is swapped by
  one atomic store.  Where the outcome depends on an order, the order is an argument and the theorems hold for
  every order: that of the goroutines which fetch the configured lists (the scheduler of \<open>LoadRules\<close>), of
  parallel upstream results (\<open>Forward\<close>), of the listeners' reports (\<open>Start\<close>, \<open>Shutdown\<close>).  In \<open>daemon_step\<close> the local phase of a query is one step and the upstream
  exchange with what follows it another; reloads, ticks, signals, other queries and failures come between them
  in any order, and so do changes of the world, of which the clock is a part.

  \<^bold>\<open>Deadlines.\<close>  A query gets a context that ends one second after the pool's timeout (\<open>query_context\<close>), each
  attempt a context made from it with the pool's timeout (\<open>attempt\<close>, \<open>start_goroutines\<close>), and a client gets the context
  of its attempt as an argument.  What the network does about a deadline is a hypothesis of the theorem that needs it
  (\<open>answers_within\<close>, \<open>exchange_cost\<close>, \<open>hangs\<close>, \<open>obeys_deadline\<close>).  The parallel strategy returns with the first valid
  result; the goroutines left are cancelled, kept in \<open>fw_running\<close>, and each ends in a step of the process.

  \<^bold>\<open>What the lemmas show.\<close>
  \<^item> Filtering: \<open>trie_matches_iff\<close> (the trie against the set of its rules), \<open>parse_hosts_correct\<close> (the parser against a
    stateless reference), \<open>engine_implements_policy\<close> (the loaded engine against a declarative policy), and that
    the order of fetching does not matter.
  \<^item> Cache: refinement of a bounded LRU list (\<open>get_refines_lru\<close>, \<open>set_refines_lru\<close>), its size (\<open>cache_bounded\<close>), and
    that a hit is a copy of what was stored under that key and has not expired (\<open>cache_hit_origin\<close>).
  \<^item> Privacy: \<open>padding_aligned\<close>, \<open>private_address_ranges\<close>, \<open>upstream_query_private\<close>, and the
    ring buffer's refinement of a list of recent entries.
  \<^item> Upstreams: one working resolver suffices under every strategy while the deadline lasts, two hanging ones use all
    of it up, fairness of round robin, priority of failover, and the contract of a single exchange.
  \<^item> Handler: one reply to every query, what a reply can be, and what is cached, logged and recorded.  The invariant
    \<open>handler_inv\<close> says that whatever the cache holds was clean under a rule set that has been in force.
  \<^item> Process: start, accounting of queries over all runs, what is ever forwarded, progress, and exit codes.

  \<^bold>\<open>Bounds.\<close>  The only bounds are those of the code's integers: the counters of round robin and of the ring buffer
  wrap at \<open>2 ^ 64\<close>, so fairness and order are stated below that many operations, and no configuration has \<open>2 ^ 64\<close>
  upstreams (\<open>few_servers\<close>).  No definition uses fuel: the loops are structural recursions or have a measure.

  \<^bold>\<open>Not modelled.\<close>  The log lines of \<open>LoadRules\<close> and the debug lines of the forwarder; the timeouts of
  the list downloads, of the listeners and of the shutdown other than as errors of those calls; the error
  branches of \<^verbatim>\<open>main\<close> and \<^verbatim>\<open>StartAutoUpdate\<close> for \<^verbatim>\<open>LoadRules\<close>, which never returns an error; the texts printed for port conflicts; memory and speed (preallocation, string
  interning beyond its result); the unit tests, the shell script, the service unit and the sample files.
\<close>

end
